theory Spec2Isabelle
  imports Complex_Main "HOL-Library.AList"
begin

section \<open>Numbers and strings of the host language\<close>

text \<open>
  The period fields are JavaScript numbers. The model keeps the integers and the one
  non-integer value the period code can produce by itself, \<open>NaN\<close> (from \<open>parseInt\<close> and
  from arithmetic on it). Fractions, infinities and the loss of precision above
  \<open>2 ^ 53\<close> are outside the model.
\<close>

datatype number = Num int | NaN

text \<open>\<open>a - b\<close>, \<open>a * b\<close> and \<open>a + b\<close> on numbers: \<open>NaN\<close> is absorbing.\<close>

fun num_sub :: "number \<Rightarrow> number \<Rightarrow> number" where
  "num_sub (Num a) (Num b) = Num (a - b)"
| "num_sub _ _ = NaN"

fun num_mul :: "number \<Rightarrow> number \<Rightarrow> number" where
  "num_mul (Num a) (Num b) = Num (a * b)"
| "num_mul _ _ = NaN"

fun num_add :: "number \<Rightarrow> number \<Rightarrow> number" where
  "num_add (Num a) (Num b) = Num (a + b)"
| "num_add _ _ = NaN"

text \<open>\<open>a === b\<close> and \<open>a <= b\<close> on numbers: every comparison with \<open>NaN\<close> is false.\<close>

fun num_eq :: "number \<Rightarrow> number \<Rightarrow> bool" where
  "num_eq (Num a) (Num b) = (a = b)"
| "num_eq _ _ = False"

fun num_le :: "number \<Rightarrow> number \<Rightarrow> bool" where
  "num_le (Num a) (Num b) = (a \<le> b)"
| "num_le _ _ = False"

text \<open>Decimal digits of a natural number, most significant first.\<close>

definition digit_char :: "nat \<Rightarrow> char" where
  "digit_char d = ''0123456789'' ! d"

fun nat_digits :: "nat \<Rightarrow> string" where
  "nat_digits n =
     (if n < 10 then [digit_char n]
      else nat_digits (n div 10) @ [digit_char (n mod 10)])"

declare nat_digits.simps [simp del]

text \<open>\<open>Number.prototype.toString()\<close> on the numbers of the model.\<close>

fun toString :: "number \<Rightarrow> string" where
  "toString NaN = ''NaN''"
| "toString (Num n) =
     (if n < 0 then CHR ''-'' # nat_digits (nat (- n)) else nat_digits (nat n))"

text \<open>\<open>s.padStart(2, "0")\<close>.\<close>

definition padStart2 :: "string \<Rightarrow> string" where
  "padStart2 s = replicate (2 - length s) (CHR ''0'') @ s"

definition is_digit :: "char \<Rightarrow> bool" where
  "is_digit c = (c \<in> set ''0123456789'')"

definition is_space :: "char \<Rightarrow> bool" where
  "is_space c = ((of_char c :: nat) \<in> {9, 10, 11, 12, 13, 32})"

definition digits_val :: "string \<Rightarrow> nat" where
  "digits_val ds = foldl (\<lambda>a c. 10 * a + (of_char c - 48)) 0 ds"

text \<open>
  \<open>parseInt(s, 10)\<close>: leading white space is skipped, one sign is read, then the longest
  run of decimal digits; no digit at all gives \<open>NaN\<close>. The characters of the model are
  bytes, so only the ASCII white space is skipped; the keys of the program hold none.
\<close>

definition parseInt :: "string \<Rightarrow> number" where
  "parseInt s =
     (let t = dropWhile is_space s;
          neg = (t \<noteq> [] \<and> hd t = CHR ''-'');
          u = (if t \<noteq> [] \<and> (hd t = CHR ''-'' \<or> hd t = CHR ''+'') then tl t else t);
          ds = takeWhile is_digit u
      in if ds = [] then NaN
         else Num (if neg then - int (digits_val ds) else int (digits_val ds)))"

text \<open>\<open>s.split(sep)\<close> for a separator of one character.\<close>

fun str_split :: "char \<Rightarrow> string \<Rightarrow> string list" where
  "str_split sep [] = [[]]"
| "str_split sep (c # cs) =
     (if c = sep then [] # str_split sep cs
      else (case str_split sep cs of
              [] \<Rightarrow> [[c]]
            | w # ws \<Rightarrow> (c # w) # ws))"

section \<open>Periods\<close>

text \<open>
  \<open>Period = Month | Quarter | Year\<close>. The source tells the shapes apart by the presence
  of the \<open>month\<close> and \<open>quarter\<close> fields; the model has one constructor per shape.
\<close>

datatype period =
    Month (month: number) (year: number)
  | Quarter (quarter: number) (year: number)
  | Year (year: number)

fun isMonth :: "period \<Rightarrow> bool" where
  "isMonth (Month _ _) = True"
| "isMonth _ = False"

fun isQuarter :: "period \<Rightarrow> bool" where
  "isQuarter (Quarter _ _) = True"
| "isQuarter _ = False"

definition isYear :: "period \<Rightarrow> bool" where
  "isYear p = (\<not> isMonth p \<and> \<not> isQuarter p)"

fun periodKey :: "period \<Rightarrow> string" where
  "periodKey (Month m y) = toString y @ ''-'' @ padStart2 (toString m)"
| "periodKey (Quarter q y) = toString y @ ''-'' @ toString (num_add q (Num 32))"
| "periodKey (Year y) = toString y"

text \<open>
  \<open>const [year, month] = key.split("-").map((x) => parseInt(x, 10))\<close>: a missing second
  part leaves \<open>month\<close> undefined, which behaves as \<open>NaN\<close> in both places it is used
  (\<open>month <= 12\<close> is false, \<open>month - 32\<close> is \<open>NaN\<close>).
\<close>

definition periodFromKey :: "string \<Rightarrow> period" where
  "periodFromKey key =
     (if length key = 4 then Year (parseInt key)
      else
        (let parts = map parseInt (str_split (CHR ''-'') key);
             y = (case parts of [] \<Rightarrow> NaN | a # _ \<Rightarrow> a);
             m = (case parts of a # b # _ \<Rightarrow> b | _ \<Rightarrow> NaN)
         in if num_le m (Num 12) then Month m y
            else Quarter (num_sub m (Num 32)) y))"

text \<open>
  The comparator handed to \<open>Array.prototype.sort\<close>. When \<open>a\<close> is a year-only period no
  branch of the same-year block returns, and the result is the difference of the years.
\<close>

fun periodSorter :: "period \<Rightarrow> period \<Rightarrow> number" where
  "periodSorter a b =
     (if num_eq (year a) (year b) then
        (case a of
           Month am _ \<Rightarrow>
             (case b of
                Month bm _ \<Rightarrow> num_sub am bm
              | Quarter bq _ \<Rightarrow> num_sub am (num_mul bq (Num 3))
              | Year _ \<Rightarrow> Num (- 1))
         | Quarter aq _ \<Rightarrow>
             (case b of
                Month bm _ \<Rightarrow> num_sub (num_mul aq (Num 3)) bm
              | Quarter bq _ \<Rightarrow> num_sub aq bq
              | Year _ \<Rightarrow> Num 1)
         | Year _ \<Rightarrow> num_sub (year a) (year b))
      else num_sub (year a) (year b))"

text \<open>
  \<open>Array.from({ length: n }, (_, i) => ...)\<close> runs \<open>i\<close> over \<open>0, ..., n - 1\<close>. On a
  period without a \<open>quarter\<close> field the arithmetic is on undefined and gives \<open>NaN\<close>.
\<close>

fun getMonthsForQuarter :: "period \<Rightarrow> period list" where
  "getMonthsForQuarter (Quarter q y) =
     map (\<lambda>i. Month (num_add (num_sub (num_mul (Num 3) q) (Num 2)) (Num (int i))) y)
         [0 ..< 3]"
| "getMonthsForQuarter p = map (\<lambda>i. Month NaN (year p)) [0 ..< 3]"

definition getMonthsForYear :: "period \<Rightarrow> period list" where
  "getMonthsForYear p = map (\<lambda>i. Month (Num (int i + 1)) (year p)) [0 ..< 12]"

section \<open>Containers of the host language\<close>

text \<open>
  A JavaScript \<open>Map\<close> iterates in insertion order: it is an association list, \<open>get\<close> is
  \<^const>\<open>map_of\<close>, \<open>set\<close> is \<^const>\<open>AList.update\<close> (an existing key keeps its place, a new
  one goes to the end) and \<open>delete\<close> is \<^const>\<open>AList.delete\<close>. A \<open>Set\<close> is a list
  without duplicates with the same order.
\<close>

definition set_add :: "'a \<Rightarrow> 'a list \<Rightarrow> 'a list" where
  "set_add x xs = (if x \<in> set xs then xs else xs @ [x])"

definition new_Set :: "'a list \<Rightarrow> 'a list" where
  "new_Set xs = foldl (\<lambda>s x. set_add x s) [] xs"

definition new_Map :: "('k \<times> 'v) list \<Rightarrow> ('k \<times> 'v) list" where
  "new_Map entries = foldl (\<lambda>m (k, v). AList.update k v m) [] entries"

text \<open>
  \<open>Array.prototype.sort(cmp)\<close>. ECMAScript fixes the result only for a consistent
  comparator and requires stability; the model is a stable insertion sort, which puts
  an element before the first one it compares below (\<open>cmp x y < 0\<close>). A comparator result
  of \<open>NaN\<close> counts as zero.
\<close>

fun num_neg :: "number \<Rightarrow> bool" where
  "num_neg (Num a) = (a < 0)"
| "num_neg NaN = False"

fun sort_insert :: "('a \<Rightarrow> 'a \<Rightarrow> number) \<Rightarrow> 'a \<Rightarrow> 'a list \<Rightarrow> 'a list" where
  "sort_insert cmp x [] = [x]"
| "sort_insert cmp x (y # ys) =
     (if num_neg (cmp x y) then x # y # ys else y # sort_insert cmp x ys)"

definition array_sort :: "('a \<Rightarrow> 'a \<Rightarrow> number) \<Rightarrow> 'a list \<Rightarrow> 'a list" where
  "array_sort cmp xs = foldl (\<lambda>sorted x. sort_insert cmp x sorted) [] xs"

section \<open>The metrics table\<close>

text \<open>
  A \<open>Decimal\<close> of decimal.js is modelled by an exact rational: \<open>eq\<close> is equality,
  \<open>Decimal.sum\<close> is the sum and \<open>dividedBy\<close> the quotient. The rounding to the configured
  precision and the non-finite decimals are outside the model. A \<open>Decimal\<close> is an object,
  so it is truthy whatever its value, and \<open>undefined\<close> is \<open>None\<close>.
\<close>

type_synonym decimal = rat

datatype error = UnknownMetric string | TypeError

text \<open>\<open>Map<metric name, Map<period key, Decimal>>\<close>\<close>

type_synonym table_data = "(string \<times> (string \<times> decimal) list) list"

text \<open>
  The rules of a metric receive the table and read it; the model hands them the
  table's data. They are pure and total, as the configuration documents them.
\<close>

datatype aggregate_rule =
    AggFirst
  | AggLast
  | AggAverage
  | AggSum
  | AggCustom "table_data \<Rightarrow> period list \<Rightarrow> period \<Rightarrow> decimal option \<Rightarrow> decimal option"

record metric_configuration =
  name :: string
  compute :: "(table_data \<Rightarrow> period \<Rightarrow> decimal option \<Rightarrow> decimal option) option"
  aggregate :: "aggregate_rule option"

record aggregate_configuration =
  agg_quarter :: "bool option"
  agg_year :: "bool option"

record metrics_table_configuration =
  metrics :: "metric_configuration list"
  aggregates :: "aggregate_configuration option"

record metric_value =
  metric :: string
  period :: period
  val :: "decimal option"

record updated_metric_value = metric_value +
  oldValue :: "decimal option"

type_synonym updated_values = "updated_metric_value list"

record metrics_table =
  configuration :: metrics_table_configuration
  data :: table_data

text \<open>
  A method that can throw returns \<open>Inl\<close> of the error; a method that mutates the table
  returns the table as it is left, also when it throws.
\<close>

type_synonym 'a outcome = "(error + 'a) \<times> metrics_table"

text \<open>\<open>average\<close> of the metrics module.\<close>

definition average :: "decimal list \<Rightarrow> decimal" where
  "average values = (if length values = 0 then 0 else sum_list values / of_nat (length values))"

definition getValue :: "table_data \<Rightarrow> string \<Rightarrow> period \<Rightarrow> error + decimal option" where
  "getValue d m p =
     (case map_of d m of
        None \<Rightarrow> Inl (UnknownMetric m)
      | Some row \<Rightarrow> Inr (map_of row (periodKey p)))"

definition getMetrics :: "table_data \<Rightarrow> string list" where
  "getMetrics d = map fst d"

definition getPeriods :: "table_data \<Rightarrow> period list" where
  "getPeriods d =
     array_sort periodSorter
       (map periodFromKey (new_Set (concat (map (\<lambda>(m, periods). map fst periods) d))))"

text \<open>\<open>this.configuration.aggregates?.quarter\<close> and \<open>?.year\<close>, read as a condition.\<close>

definition quarter_enabled :: "metrics_table_configuration \<Rightarrow> bool" where
  "quarter_enabled c =
     (case aggregates c of
        None \<Rightarrow> False
      | Some a \<Rightarrow> (case agg_quarter a of None \<Rightarrow> False | Some b \<Rightarrow> b))"

definition year_enabled :: "metrics_table_configuration \<Rightarrow> bool" where
  "year_enabled c =
     (case aggregates c of
        None \<Rightarrow> False
      | Some a \<Rightarrow> (case agg_year a of None \<Rightarrow> False | Some b \<Rightarrow> b))"

definition isAggregate :: "metrics_table_configuration \<Rightarrow> period \<Rightarrow> bool" where
  "isAggregate c p =
     (if isQuarter p then quarter_enabled c
      else if isYear p then year_enabled c
      else False)"

text \<open>\<open>this.data.get(metric)?.set(key, v)\<close> and \<open>this.data.get(metric)?.delete(key)\<close>.\<close>

definition row_set :: "table_data \<Rightarrow> string \<Rightarrow> string \<Rightarrow> decimal \<Rightarrow> table_data" where
  "row_set d m k v =
     (case map_of d m of
        None \<Rightarrow> d
      | Some row \<Rightarrow> AList.update m (AList.update k v row) d)"

definition row_delete :: "table_data \<Rightarrow> string \<Rightarrow> string \<Rightarrow> table_data" where
  "row_delete d m k =
     (case map_of d m of
        None \<Rightarrow> d
      | Some row \<Rightarrow> AList.update m (AList.delete k row) d)"

text \<open>\<open>!oldValue || !newValue?.eq(oldValue)\<close>\<close>

definition differs :: "decimal option \<Rightarrow> decimal option \<Rightarrow> bool" where
  "differs old newValue =
     (case old of
        None \<Rightarrow> True
      | Some ov \<Rightarrow> (case newValue of None \<Rightarrow> True | Some nv \<Rightarrow> \<not> (nv = ov)))"

definition setValue ::
  "metrics_table \<Rightarrow> string \<Rightarrow> period \<Rightarrow> decimal option \<Rightarrow> updated_values \<Rightarrow> updated_values outcome"
where
  "setValue t m p newValue updatedValues =
     (if map_of (data t) m = None then (Inl (UnknownMetric m), t)
      else
        (case getValue (data t) m p of
           Inl e \<Rightarrow> (Inl e, t)
         | Inr old \<Rightarrow>
             if differs old newValue then
               (Inr (updatedValues @
                       [\<lparr>metric = m, period = p, val = newValue, oldValue = old\<rparr>]),
                t\<lparr>data :=
                    (case newValue of
                       Some v \<Rightarrow> row_set (data t) m (periodKey p) v
                     | None \<Rightarrow> row_delete (data t) m (periodKey p))\<rparr>)
             else (Inr updatedValues, t)))"

text \<open>
  The \<open>switch\<close> of \<open>computeAggregate\<close>. It runs after \<open>oldValue\<close> was read for the same
  metric, so the reads inside \<open>map\<close> cannot throw. \<open>includedPeriods[0]\<close> and
  \<open>includedPeriods.at(-1)\<close> are undefined on an empty array, and \<open>periodKey\<close> throws a
  \<open>TypeError\<close> on undefined. \<open>Decimal.sum\<close> is only ever applied to the 3 or 12 values of
  a quarter or a year.
\<close>

definition valueOrZero :: "table_data \<Rightarrow> string \<Rightarrow> period \<Rightarrow> decimal" where
  "valueOrZero d m p = (case getValue d m p of Inr (Some v) \<Rightarrow> v | _ \<Rightarrow> 0)"

fun aggregateValue ::
  "aggregate_rule \<Rightarrow> table_data \<Rightarrow> string \<Rightarrow> period list \<Rightarrow> period \<Rightarrow> decimal option
     \<Rightarrow> error + decimal option"
where
  "aggregateValue AggFirst d m includedPeriods p old =
     (case includedPeriods of [] \<Rightarrow> Inl TypeError | p0 # _ \<Rightarrow> getValue d m p0)"
| "aggregateValue AggLast d m includedPeriods p old =
     (if includedPeriods = [] then Inl TypeError else getValue d m (last includedPeriods))"
| "aggregateValue AggAverage d m includedPeriods p old =
     Inr (Some (average (map (valueOrZero d m) includedPeriods)))"
| "aggregateValue AggSum d m includedPeriods p old =
     Inr (Some (sum_list (map (valueOrZero d m) includedPeriods)))"
| "aggregateValue (AggCustom f) d m includedPeriods p old =
     Inr (f d includedPeriods p old)"

text \<open>\<open>computeAggregate\<close>: the loop over the configured metrics.\<close>

fun aggregateMetrics ::
  "metrics_table \<Rightarrow> period \<Rightarrow> period list \<Rightarrow> metric_configuration list \<Rightarrow> updated_values
     \<Rightarrow> updated_values outcome"
where
  "aggregateMetrics t p includedPeriods [] updatedValues = (Inr updatedValues, t)"
| "aggregateMetrics t p includedPeriods (mc # rest) updatedValues =
     (case aggregate mc of
        None \<Rightarrow> aggregateMetrics t p includedPeriods rest updatedValues
      | Some rule \<Rightarrow>
          (case getValue (data t) (name mc) p of
             Inl e \<Rightarrow> (Inl e, t)
           | Inr old \<Rightarrow>
               (case aggregateValue rule (data t) (name mc) includedPeriods p old of
                  Inl e \<Rightarrow> (Inl e, t)
                | Inr newValue \<Rightarrow>
                    (case setValue t (name mc) p newValue updatedValues of
                       (Inl e, t') \<Rightarrow> (Inl e, t')
                     | (Inr updatedValues', t') \<Rightarrow>
                         aggregateMetrics t' p includedPeriods rest updatedValues'))))"

definition computeAggregate ::
  "metrics_table \<Rightarrow> period \<Rightarrow> period list \<Rightarrow> updated_values \<Rightarrow> updated_values outcome"
where
  "computeAggregate t p includedPeriods updatedValues =
     aggregateMetrics t p includedPeriods (metrics (configuration t)) updatedValues"

text \<open>\<open>recompute\<close>, first part: the inner loop over the metrics for one base period.\<close>

fun computeMetrics ::
  "metrics_table \<Rightarrow> period \<Rightarrow> metric_configuration list \<Rightarrow> updated_values
     \<Rightarrow> updated_values outcome"
where
  "computeMetrics t p [] updatedValues = (Inr updatedValues, t)"
| "computeMetrics t p (mc # rest) updatedValues =
     (case compute mc of
        None \<Rightarrow> computeMetrics t p rest updatedValues
      | Some f \<Rightarrow>
          (case getValue (data t) (name mc) p of
             Inl e \<Rightarrow> (Inl e, t)
           | Inr old \<Rightarrow>
               (case setValue t (name mc) p (f (data t) p old) updatedValues of
                  (Inl e, t') \<Rightarrow> (Inl e, t')
                | (Inr updatedValues', t') \<Rightarrow> computeMetrics t' p rest updatedValues')))"

text \<open>The outer loop over the base periods, which also collects the years.\<close>

fun computePeriods ::
  "metrics_table \<Rightarrow> period list \<Rightarrow> number list \<Rightarrow> updated_values
     \<Rightarrow> (updated_values \<times> number list) outcome"
where
  "computePeriods t [] years updatedValues = (Inr (updatedValues, years), t)"
| "computePeriods t (p # rest) years updatedValues =
     (case computeMetrics t p (metrics (configuration t)) updatedValues of
        (Inl e, t') \<Rightarrow> (Inl e, t')
      | (Inr updatedValues', t') \<Rightarrow>
          computePeriods t' rest (set_add (year p) years) updatedValues')"

text \<open>The loop \<open>for (const quarter of [1, 2, 3, 4])\<close> of one year, and the loop over the years.\<close>

fun aggregateQuarters ::
  "metrics_table \<Rightarrow> number \<Rightarrow> int list \<Rightarrow> updated_values \<Rightarrow> updated_values outcome"
where
  "aggregateQuarters t y [] updatedValues = (Inr updatedValues, t)"
| "aggregateQuarters t y (q # rest) updatedValues =
     (case computeAggregate t (Quarter (Num q) y) (getMonthsForQuarter (Quarter (Num q) y))
             updatedValues of
        (Inl e, t') \<Rightarrow> (Inl e, t')
      | (Inr updatedValues', t') \<Rightarrow> aggregateQuarters t' y rest updatedValues')"

fun aggregateQuarterYears ::
  "metrics_table \<Rightarrow> number list \<Rightarrow> updated_values \<Rightarrow> updated_values outcome"
where
  "aggregateQuarterYears t [] updatedValues = (Inr updatedValues, t)"
| "aggregateQuarterYears t (y # rest) updatedValues =
     (case aggregateQuarters t y [1, 2, 3, 4] updatedValues of
        (Inl e, t') \<Rightarrow> (Inl e, t')
      | (Inr updatedValues', t') \<Rightarrow> aggregateQuarterYears t' rest updatedValues')"

fun aggregateYears ::
  "metrics_table \<Rightarrow> number list \<Rightarrow> updated_values \<Rightarrow> updated_values outcome"
where
  "aggregateYears t [] updatedValues = (Inr updatedValues, t)"
| "aggregateYears t (y # rest) updatedValues =
     (case computeAggregate t (Year y) (getMonthsForYear (Year y)) updatedValues of
        (Inl e, t') \<Rightarrow> (Inl e, t')
      | (Inr updatedValues', t') \<Rightarrow> aggregateYears t' rest updatedValues')"

definition recompute :: "metrics_table \<Rightarrow> updated_values \<Rightarrow> updated_values outcome" where
  "recompute t updatedValues =
     (case computePeriods t
             (filter (\<lambda>p. \<not> isAggregate (configuration t) p) (getPeriods (data t)))
             [] updatedValues of
        (Inl e, t1) \<Rightarrow> (Inl e, t1)
      | (Inr (updatedValues1, years), t1) \<Rightarrow>
          (case (if quarter_enabled (configuration t1)
                 then aggregateQuarterYears t1 years updatedValues1
                 else (Inr updatedValues1, t1)) of
             (Inl e, t2) \<Rightarrow> (Inl e, t2)
           | (Inr updatedValues2, t2) \<Rightarrow>
               (if year_enabled (configuration t2)
                then aggregateYears t2 years updatedValues2
                else (Inr updatedValues2, t2))))"

text \<open>The loop of \<open>update\<close> over the values it is given.\<close>

fun setValues ::
  "metrics_table \<Rightarrow> metric_value list \<Rightarrow> updated_values \<Rightarrow> updated_values outcome"
where
  "setValues t [] updatedValues = (Inr updatedValues, t)"
| "setValues t (v # rest) updatedValues =
     (case setValue t (metric v) (period v) (val v) updatedValues of
        (Inl e, t') \<Rightarrow> (Inl e, t')
      | (Inr updatedValues', t') \<Rightarrow> setValues t' rest updatedValues')"

definition update :: "metrics_table \<Rightarrow> metric_value list \<Rightarrow> updated_values outcome" where
  "update t values =
     (case setValues t values [] of
        (Inl e, t') \<Rightarrow> (Inl e, t')
      | (Inr updatedValues, t') \<Rightarrow> recompute t' updatedValues)"

text \<open>
  The constructor. When the initial update throws, so does the constructor and there
  is no table: the model returns the error alone.
\<close>

definition new_MetricsTable ::
  "metrics_table_configuration \<Rightarrow> metric_value list option \<Rightarrow> error + metrics_table"
where
  "new_MetricsTable c initialData =
     (let t = \<lparr>configuration = c, data = new_Map (map (\<lambda>mc. (name mc, [])) (metrics c))\<rparr>
      in case initialData of
           None \<Rightarrow> Inr t
         | Some values \<Rightarrow>
             (case update t values of (Inl e, _) \<Rightarrow> Inl e | (Inr _, t') \<Rightarrow> Inr t'))"

section \<open>The subscribable table\<close>

text \<open>
  A callback is a function object; the model keeps its identity. Calling it is opaque
  to the table, so an update of the subscribable table returns, beside the result of the
  engine, the callbacks in the order they are called.
\<close>

type_synonym callback = nat

text \<open>\<open>Map<metric name, Map<period key, Set<callback>>>\<close>\<close>

type_synonym subscription_map = "(string \<times> (string \<times> callback list) list) list"

record subscribable_metrics_table =
  table :: metrics_table
  subscriptions :: "subscription_map option"

text \<open>
  The function returned by \<open>subscribe\<close> closes over \<open>existing\<close> and \<open>callback\<close>.
  \<open>existing\<close> is the \<open>Set\<close> object found under the metric and the key when \<open>subscribe\<close>
  ran, or undefined. A \<open>Set\<close> once stored under a metric and a key is never replaced,
  so the reference is modelled by that pair.
\<close>

datatype unsubscribe = Unsubscribe (existing: "(string \<times> string) option") (callback: callback)

definition subscribe ::
  "subscribable_metrics_table \<Rightarrow> string \<Rightarrow> period \<Rightarrow> callback
     \<Rightarrow> (error + unsubscribe) \<times> subscribable_metrics_table"
where
  "subscribe st m p cb =
     (let key = periodKey p;
          subs = (case subscriptions st of
                    None \<Rightarrow>
                      new_Map (map (\<lambda>mc. (name mc, [])) (metrics (configuration (table st))))
                  | Some s \<Rightarrow> s)
      in case map_of subs m of
           None \<Rightarrow> (Inl (UnknownMetric m), st\<lparr>subscriptions := Some subs\<rparr>)
         | Some byKey \<Rightarrow>
             (case map_of byKey key of
                None \<Rightarrow>
                  (Inr (Unsubscribe None cb),
                   st\<lparr>subscriptions := Some (AList.update m (AList.update key [cb] byKey) subs)\<rparr>)
              | Some callbacks \<Rightarrow>
                  (Inr (Unsubscribe (Some (m, key)) cb),
                   st\<lparr>subscriptions :=
                        Some (AList.update m (AList.update key (set_add cb callbacks) byKey)
                                subs)\<rparr>)))"

text \<open>Calling the returned function: \<open>existing?.delete(callback)\<close>.\<close>

fun call_unsubscribe ::
  "unsubscribe \<Rightarrow> subscribable_metrics_table \<Rightarrow> subscribable_metrics_table"
where
  "call_unsubscribe (Unsubscribe None cb) st = st"
| "call_unsubscribe (Unsubscribe (Some (m, key)) cb) st =
     (case subscriptions st of
        None \<Rightarrow> st
      | Some subs \<Rightarrow>
          (case map_of subs m of
             None \<Rightarrow> st
           | Some byKey \<Rightarrow>
               (case map_of byKey key of
                  None \<Rightarrow> st
                | Some callbacks \<Rightarrow>
                    st\<lparr>subscriptions :=
                         Some (AList.update m (AList.update key (removeAll cb callbacks) byKey)
                                 subs)\<rparr>)))"

text \<open>\<open>this.subscriptions?.get(metric)?.get(key) || []\<close>\<close>

definition subscribers :: "subscription_map option \<Rightarrow> string \<Rightarrow> string \<Rightarrow> callback list" where
  "subscribers subs m key =
     (case subs of
        None \<Rightarrow> []
      | Some s \<Rightarrow>
          (case map_of s m of
             None \<Rightarrow> []
           | Some byKey \<Rightarrow> (case map_of byKey key of None \<Rightarrow> [] | Some callbacks \<Rightarrow> callbacks)))"

text \<open>\<open>SubscribableMetricsTable.update\<close>: the result, the callbacks called, the table.\<close>

definition subscribable_update ::
  "subscribable_metrics_table \<Rightarrow> metric_value list
     \<Rightarrow> (error + updated_values) \<times> callback list \<times> subscribable_metrics_table"
where
  "subscribable_update st values =
     (case update (table st) values of
        (Inl e, t') \<Rightarrow> (Inl e, [], st\<lparr>table := t'\<rparr>)
      | (Inr updated, t') \<Rightarrow>
          (Inr updated,
           concat (map (\<lambda>u. subscribers (subscriptions st) (metric u) (periodKey (period u)))
                     updated),
           st\<lparr>table := t'\<rparr>))"

section \<open>Well-formed inputs and the configurations of the tests\<close>

text \<open>The periods of the data model: a month in 1..12, a quarter in 1..4, integer years.\<close>

fun valid_period :: "period \<Rightarrow> bool" where
  "valid_period (Month (Num m) (Num y)) = (1 \<le> m \<and> m \<le> 12)"
| "valid_period (Quarter (Num q) (Num y)) = (1 \<le> q \<and> q \<le> 4)"
| "valid_period (Year (Num y)) = True"
| "valid_period _ = False"

text \<open>The years the key format \<open>YYYY\<close> is written for.\<close>

definition four_digit_year :: "period \<Rightarrow> bool" where
  "four_digit_year p =
     (case year p of Num y \<Rightarrow> 1000 \<le> y \<and> y \<le> 9999 | NaN \<Rightarrow> False)"

text \<open>The names the configuration declares.\<close>

definition declared :: "metrics_table \<Rightarrow> string set" where
  "declared t = set (map name (metrics (configuration t)))"

text \<open>
  What the constructor establishes and every method keeps: the rows of the data are
  the declared metrics.
\<close>

definition table_ok :: "metrics_table \<Rightarrow> bool" where
  "table_ok t = (set (map fst (data t)) = declared t)"

text \<open>The configuration of the test suite of the table.\<close>

definition test_configuration :: metrics_table_configuration where
  "test_configuration =
     \<lparr>metrics =
        [\<lparr>name = ''beginningMRR'', compute = None, aggregate = Some AggSum\<rparr>,
         \<lparr>name = ''endingMRR'',
          compute = Some (\<lambda>table p currentValue.
            (case getValue table ''beginningMRR'' p of
               Inr (Some beginningMRR) \<Rightarrow> Some beginningMRR
             | _ \<Rightarrow> currentValue)),
          aggregate = None\<rparr>,
         \<lparr>name = ''anotherMetric'', compute = None, aggregate = None\<rparr>],
      aggregates = Some \<lparr>agg_quarter = Some True, agg_year = Some True\<rparr>\<rparr>"

definition test_table :: metrics_table where
  "test_table =
     \<lparr>configuration = test_configuration,
      data = [(''beginningMRR'', []), (''endingMRR'', []), (''anotherMetric'', [])]\<rparr>"

definition changed ::
  "string \<Rightarrow> period \<Rightarrow> decimal option \<Rightarrow> decimal option \<Rightarrow> updated_metric_value"
where
  "changed m p v old = \<lparr>metric = m, period = p, val = v, oldValue = old\<rparr>"

definition jan_2023 :: period where
  "jan_2023 = Month (Num 1) (Num 2023)"

definition dec_2023 :: period where
  "dec_2023 = Month (Num 12) (Num 2023)"

definition write_jan :: metric_value where
  "write_jan = \<lparr>metric = ''beginningMRR'', period = jan_2023, val = Some 10\<rparr>"

definition write_dec :: metric_value where
  "write_dec = \<lparr>metric = ''beginningMRR'', period = dec_2023, val = Some 10\<rparr>"

text \<open>The table of the tests after its first update.\<close>

definition test_table_jan :: metrics_table where
  "test_table_jan =
     \<lparr>configuration = test_configuration,
      data =
        [(''beginningMRR'',
          [(''2023-01'', 10), (''2023-33'', 10), (''2023-34'', 0), (''2023-35'', 0),
           (''2023-36'', 0), (''2023'', 10)]),
         (''endingMRR'', [(''2023-01'', 10)]),
         (''anotherMetric'', [])]\<rparr>"

text \<open>A stale-read chain: each metric copies the one declared after it.\<close>

definition copy_of :: "string \<Rightarrow> table_data \<Rightarrow> period \<Rightarrow> decimal option \<Rightarrow> decimal option" where
  "copy_of m d p currentValue = (case getValue d m p of Inr v \<Rightarrow> v | Inl _ \<Rightarrow> None)"

definition chain_configuration :: metrics_table_configuration where
  "chain_configuration =
     \<lparr>metrics =
        [\<lparr>name = ''a'', compute = Some (copy_of ''b''), aggregate = None\<rparr>,
         \<lparr>name = ''b'', compute = Some (copy_of ''c''), aggregate = None\<rparr>,
         \<lparr>name = ''c'', compute = None, aggregate = None\<rparr>],
      aggregates = None\<rparr>"

definition chain_table :: metrics_table where
  "chain_table =
     \<lparr>configuration = chain_configuration, data = [(''a'', []), (''b'', []), (''c'', [])]\<rparr>"

definition write_c :: metric_value where
  "write_c = \<lparr>metric = ''c'', period = jan_2023, val = Some 10\<rparr>"

text \<open>The chain table after \<open>update\<close> with \<open>write_c\<close>.\<close>

definition chain_table_c :: metrics_table where
  "chain_table_c =
     \<lparr>configuration = chain_configuration,
      data = [(''a'', []), (''b'', [(''2023-01'', 10)]), (''c'', [(''2023-01'', 10)])]\<rparr>"

definition write_unknown :: metric_value where
  "write_unknown = \<lparr>metric = ''unknown'', period = jan_2023, val = Some 10\<rparr>"

text \<open>The table of the tests as a subscribable table, before and after one subscription.\<close>

definition test_subscribable :: subscribable_metrics_table where
  "test_subscribable = \<lparr>table = test_table, subscriptions = None\<rparr>"

definition test_subscribed :: subscribable_metrics_table where
  "test_subscribed =
     \<lparr>table = test_table,
      subscriptions =
        Some [(''beginningMRR'', [(''2023-01'', [7])]), (''endingMRR'', []),
              (''anotherMetric'', [])]\<rparr>"

definition write_jan_20 :: metric_value where
  "write_jan_20 = \<lparr>metric = ''beginningMRR'', period = jan_2023, val = Some 20\<rparr>"

definition clear_another :: metric_value where
  "clear_another = \<lparr>metric = ''anotherMetric'', period = jan_2023, val = None\<rparr>"






section \<open>The recomputation as one pass\<close>









section \<open>Invariants of the methods\<close>

text \<open>
  An entry of the changed-values list whose two values are not both absent records
  a change when they differ.
\<close>

definition real_change :: "updated_metric_value \<Rightarrow> bool" where
  "real_change e = ((val e = None \<and> oldValue e = None) \<or> val e \<noteq> oldValue e)"

text \<open>No method replaces the configuration or adds or removes a row.\<close>

definition unchanged_frame :: "metrics_table \<Rightarrow> metrics_table \<Rightarrow> bool" where
  "unchanged_frame t t' =
     (configuration t' = configuration t \<and> map fst (data t') = map fst (data t))"

text \<open>
  What a method that returns has done to the list it was handed: it has appended
  entries to it.
\<close>

definition appended :: "updated_values \<Rightarrow> error + updated_values \<Rightarrow> bool" where
  "appended upd r =
     (case r of
        Inl e \<Rightarrow> True
      | Inr upd' \<Rightarrow> (\<exists>new. upd' = upd @ new \<and> list_all real_change new))"

definition out_ok :: "metrics_table \<Rightarrow> updated_values \<Rightarrow> updated_values outcome \<Rightarrow> bool" where
  "out_ok t upd out = (unchanged_frame t (snd out) \<and> appended upd (fst out))"

text \<open>Every metric of the list has a row.\<close>

definition rows_for :: "metrics_table \<Rightarrow> metric_configuration list \<Rightarrow> bool" where
  "rows_for t ms = (set (map name ms) \<subseteq> set (map fst (data t)))"

text \<open>
  What \<open>subscribe\<close> establishes and keeps: the observer storage, once allocated, has
  the declared metrics as rows.
\<close>

definition subscribable_ok :: "subscribable_metrics_table \<Rightarrow> bool" where
  "subscribable_ok st =
     (table_ok (table st) \<and>
      (case subscriptions st of
         None \<Rightarrow> True
       | Some s \<Rightarrow> set (map fst s) = declared (table st)))"

text \<open>The \<open>Set\<close>s of callbacks hold no callback twice.\<close>

definition sets_ok :: "subscription_map option \<Rightarrow> bool" where
  "sets_ok subs =
     (case subs of
        None \<Rightarrow> True
      | Some s \<Rightarrow> list_all (\<lambda>(m, byKey). list_all (\<lambda>(k, callbacks). distinct callbacks) byKey) s)"


section \<open>The period keys\<close>

lemma digit_cases: "d < 10 \<Longrightarrow> d \<in> {0, 1, 2, 3, 4, 5, 6, 7, 8, 9::nat}"
  by auto

lemma digit_char_is_digit: "d < 10 \<Longrightarrow> is_digit (digit_char d)"
  using digit_cases [of d] by (auto simp: is_digit_def digit_char_def)

lemma digit_char_val: "d < 10 \<Longrightarrow> (of_char (digit_char d) :: nat) - 48 = d"
  using digit_cases [of d] by (auto simp: digit_char_def)

lemma is_digit_not_special:
  "is_digit c \<Longrightarrow> c \<noteq> CHR ''-'' \<and> c \<noteq> CHR ''+'' \<and> \<not> is_space c"
  by (auto simp: is_digit_def is_space_def)

lemma nat_digits_all_digit: "c \<in> set (nat_digits n) \<Longrightarrow> is_digit c"
proof (induction n arbitrary: c rule: nat_digits.induct)
  case (1 n)
  show ?case
  proof (cases "n < 10")
    case True
    with "1.prems" show ?thesis
      by (simp add: nat_digits.simps [of n] digit_char_is_digit)
  next
    case False
    with "1.prems" "1.IH" show ?thesis
      by (auto simp: nat_digits.simps [of n] digit_char_is_digit)
  qed
qed

lemma nat_digits_nonempty: "nat_digits n \<noteq> []"
  by (simp add: nat_digits.simps [of n])

lemma digits_val_snoc: "digits_val (xs @ [c]) = 10 * digits_val xs + (of_char c - 48)"
  by (simp add: digits_val_def)

lemma digits_val_nat_digits: "digits_val (nat_digits n) = n"
proof (induction n rule: nat_digits.induct)
  case (1 n)
  show ?case
  proof (cases "n < 10")
    case True
    then show ?thesis
      by (simp add: nat_digits.simps [of n] digits_val_def digit_char_val)
  next
    case False
    with "1.IH" show ?thesis
      by (simp add: nat_digits.simps [of n] digits_val_snoc digit_char_val)
  qed
qed

lemma digits_val_zero_Cons: "digits_val (CHR ''0'' # s) = digits_val s"
  by (simp add: digits_val_def)

lemma parseInt_digits:
  assumes "s \<noteq> []" and "\<And>c. c \<in> set s \<Longrightarrow> is_digit c"
  shows "parseInt s = Num (int (digits_val s))"
proof -
  from assms obtain c r where s: "s = c # r" by (cases s) auto
  with assms have c: "is_digit c" by simp
  have tw: "takeWhile is_digit r = r" using assms(2) by (simp add: s)
  show ?thesis
    using c is_digit_not_special [of c] by (simp add: parseInt_def s Let_def tw)
qed

lemma str_split_no_sep: "sep \<notin> set s \<Longrightarrow> str_split sep s = [s]"
  by (induction s) auto

lemma str_split_append:
  "sep \<notin> set a \<Longrightarrow> str_split sep (a @ sep # b) = a # str_split sep b"
  by (induction a) auto

lemma length_nat_digits_1: "n < 10 \<Longrightarrow> length (nat_digits n) = 1"
  by (simp add: nat_digits.simps [of n])

lemma length_nat_digits_2: "10 \<le> n \<Longrightarrow> n < 100 \<Longrightarrow> length (nat_digits n) = 2"
  by (simp add: nat_digits.simps [of n] length_nat_digits_1)

lemma length_nat_digits_3: "100 \<le> n \<Longrightarrow> n < 1000 \<Longrightarrow> length (nat_digits n) = 3"
  by (simp add: nat_digits.simps [of n] length_nat_digits_2)

lemma length_nat_digits_4: "1000 \<le> n \<Longrightarrow> n < 10000 \<Longrightarrow> length (nat_digits n) = 4"
  by (simp add: nat_digits.simps [of n] length_nat_digits_3)

lemma parseInt_nat_digits: "parseInt (nat_digits n) = Num (int n)"
  by (simp add: parseInt_digits nat_digits_nonempty nat_digits_all_digit digits_val_nat_digits)

lemma parseInt_padStart2: "n < 100 \<Longrightarrow> parseInt (padStart2 (nat_digits n)) = Num (int n)"
proof (cases "n < 10")
  case True
  then have "padStart2 (nat_digits n) = CHR ''0'' # nat_digits n"
    by (simp add: padStart2_def length_nat_digits_1)
  moreover have "parseInt (CHR ''0'' # nat_digits n)
                 = Num (int (digits_val (CHR ''0'' # nat_digits n)))"
    by (rule parseInt_digits) (auto simp: is_digit_def dest: nat_digits_all_digit)
  ultimately show ?thesis by (simp add: digits_val_zero_Cons digits_val_nat_digits)
next
  case False
  assume "n < 100"
  with False have "padStart2 (nat_digits n) = nat_digits n"
    by (simp add: padStart2_def length_nat_digits_2)
  then show ?thesis by (simp add: parseInt_nat_digits)
qed

lemma length_padStart2: "n < 100 \<Longrightarrow> length (padStart2 (nat_digits n)) = 2"
  by (cases "n < 10") (simp_all add: padStart2_def length_nat_digits_1 length_nat_digits_2)

lemma nat_digits_no_dash: "CHR ''-'' \<notin> set (nat_digits n)"
  using is_digit_not_special nat_digits_all_digit by blast

lemma padStart2_no_dash: "CHR ''-'' \<notin> set (padStart2 (nat_digits n))"
  using nat_digits_no_dash [of n] by (auto simp: padStart2_def)

lemma periodFromKey_month:
  assumes "1000 \<le> y" "y \<le> 9999" "1 \<le> m" "m \<le> 12"
  shows "periodFromKey (periodKey (Month (Num m) (Num y))) = Month (Num m) (Num y)"
proof -
  let ?ys = "nat_digits (nat y)" and ?ms = "padStart2 (nat_digits (nat m))"
  have key: "periodKey (Month (Num m) (Num y)) = ?ys @ CHR ''-'' # ?ms"
    using assms by simp
  have len: "length (?ys @ CHR ''-'' # ?ms) = 7"
    using assms by (simp add: length_nat_digits_4 length_padStart2)
  have parts: "str_split (CHR ''-'') (?ys @ CHR ''-'' # ?ms) = [?ys, ?ms]"
    by (simp add: str_split_append nat_digits_no_dash str_split_no_sep padStart2_no_dash)
  show ?thesis
    using assms unfolding key periodFromKey_def len parts
    by (simp add: parseInt_nat_digits parseInt_padStart2)
qed

lemma periodFromKey_quarter:
  assumes "1000 \<le> y" "y \<le> 9999" "1 \<le> q" "q \<le> 4"
  shows "periodFromKey (periodKey (Quarter (Num q) (Num y))) = Quarter (Num q) (Num y)"
proof -
  let ?ys = "nat_digits (nat y)" and ?qs = "nat_digits (nat (q + 32))"
  have key: "periodKey (Quarter (Num q) (Num y)) = ?ys @ CHR ''-'' # ?qs"
    using assms by simp
  have len: "length (?ys @ CHR ''-'' # ?qs) = 7"
    using assms by (simp add: length_nat_digits_4 length_nat_digits_2)
  have parts: "str_split (CHR ''-'') (?ys @ CHR ''-'' # ?qs) = [?ys, ?qs]"
    by (simp add: str_split_append nat_digits_no_dash str_split_no_sep)
  show ?thesis
    using assms unfolding key periodFromKey_def len parts
    by (simp add: parseInt_nat_digits)
qed

lemma periodFromKey_year:
  assumes "1000 \<le> y" "y \<le> 9999"
  shows "periodFromKey (periodKey (Year (Num y))) = Year (Num y)"
  using assms by (simp add: periodFromKey_def length_nat_digits_4 parseInt_nat_digits)

text \<open>
  C3, as the code has it. The key of a year-only period is recognised by its length of
  four characters, so decoding inverts encoding on the years written with four digits:
  for every valid period \<open>p\<close> with a year from 1000 to 9999,
  \<open>periodFromKey (periodKey p) = p\<close>.
\<close>

theorem periodFromKey_periodKey:
  "valid_period p \<Longrightarrow> four_digit_year p \<Longrightarrow> periodFromKey (periodKey p) = p"
  by (cases p rule: valid_period.cases)
     (simp_all add: four_digit_year_def periodFromKey_month periodFromKey_quarter
        periodFromKey_year del: periodKey.simps)

theorem periodFromKey_periodKey_witness:
  "valid_period (Quarter (Num 4) (Num 2023)) \<and> four_digit_year (Quarter (Num 4) (Num 2023))
   \<and> periodFromKey (periodKey (Quarter (Num 4) (Num 2023))) = Quarter (Num 4) (Num 2023)"
  using periodFromKey_periodKey [of "Quarter (Num 4) (Num 2023)"]
  by (simp add: four_digit_year_def)

text \<open>
  C3 as stated fails for a valid period whose year is not written with four digits:
  the key of the year 123 has three characters, is taken for a month or quarter key and
  decodes to a quarter without a number.
\<close>

theorem periodFromKey_periodKey_counterexample:
  "valid_period (Year (Num 123))
   \<and> periodFromKey (periodKey (Year (Num 123))) = Quarter NaN (Num 123)
   \<and> periodFromKey (periodKey (Year (Num 123))) \<noteq> Year (Num 123)"
  by (simp add: periodFromKey_def nat_digits.simps parseInt_def is_digit_def is_space_def
      digits_val_def digit_char_def)

section \<open>The ordering of the periods\<close>

text \<open>
  C2 at the input where the code leaves the documented ordering. A year-only period
  is to sort after every month of its year, and the comparator is to be antisymmetric;
  with the year-only period as first argument the comparator answers 0 (equal), while
  with the arguments exchanged it answers -1.
\<close>

theorem periodSorter_year_first:
  "periodSorter (Year (Num 2023)) (Month (Num 1) (Num 2023)) = Num 0
   \<and> periodSorter (Month (Num 1) (Num 2023)) (Year (Num 2023)) = Num (- 1)"
  by simp

section \<open>The frame of the table and the changed-values list\<close>

lemma map_of_in_keys: "map_of d m = Some row \<Longrightarrow> m \<in> fst ` set d"
  by (induction d) (auto split: if_splits)

lemma keys_row_set: "map fst (row_set d m k v) = map fst d"
  by (auto simp: row_set_def update_keys map_of_in_keys split: option.splits)

lemma keys_row_delete: "map fst (row_delete d m k) = map fst d"
  by (auto simp: row_delete_def update_keys map_of_in_keys split: option.splits)



lemma unchanged_frame_refl: "unchanged_frame t t"
  by (simp add: unchanged_frame_def)

lemma unchanged_frame_trans:
  "unchanged_frame t t1 \<Longrightarrow> unchanged_frame t1 t2 \<Longrightarrow> unchanged_frame t t2"
  by (simp add: unchanged_frame_def)

lemma appended_refl: "appended upd (Inr upd)"
  by (simp add: appended_def)

lemma appended_trans:
  "appended upd (Inr upd1) \<Longrightarrow> appended upd1 r \<Longrightarrow> appended upd r"
  by (cases r) (auto simp: appended_def)

lemma out_ok_return: "out_ok t upd (Inr upd, t)"
  by (simp add: out_ok_def unchanged_frame_refl appended_refl)

lemma out_ok_bind:
  assumes "out_ok t upd out"
    and "\<And>u t1. out = (Inr u, t1) \<Longrightarrow> out_ok t1 u (F t1 u)"
  shows "out_ok t upd (case out of (Inl e, t') \<Rightarrow> (Inl e, t') | (Inr u, t') \<Rightarrow> F t' u)"
proof (cases out)
  case (Pair r t1)
  show ?thesis
  proof (cases r)
    case (Inl e)
    with Pair assms(1) show ?thesis by (simp add: out_ok_def appended_def)
  next
    case (Inr u)
    with Pair assms(2) have "out_ok t1 u (F t1 u)" by simp
    with Pair Inr assms(1) show ?thesis
      by (auto simp: out_ok_def intro: unchanged_frame_trans appended_trans)
  qed
qed

lemma setValue_out_ok: "out_ok t upd (setValue t m p v upd)"
  by (auto simp: setValue_def getValue_def out_ok_def unchanged_frame_def appended_def
      real_change_def differs_def keys_row_set keys_row_delete split: option.splits)

lemma setValues_out_ok: "out_ok t upd (setValues t vs upd)"
proof (induction vs arbitrary: t upd)
  case Nil
  show ?case by (simp add: out_ok_return)
next
  case (Cons v vs)
  show ?case
    unfolding setValues.simps by (rule out_ok_bind [OF setValue_out_ok]) (rule Cons.IH)
qed

lemma computeMetrics_out_ok: "out_ok t upd (computeMetrics t p ms upd)"
proof (induction ms arbitrary: t upd)
  case Nil
  show ?case by (simp add: out_ok_return)
next
  case (Cons mc ms)
  show ?case
  proof (cases "compute mc")
    case None
    then show ?thesis by (simp add: Cons.IH)
  next
    case (Some f)
    show ?thesis
    proof (cases "getValue (data t) (name mc) p")
      case (Inl e)
      with Some show ?thesis by (simp add: out_ok_def unchanged_frame_refl appended_def)
    next
      case (Inr old)
      with Some show ?thesis
        by (simp del: split_paired_All) (rule out_ok_bind [OF setValue_out_ok], rule Cons.IH)
    qed
  qed
qed


lemma out_ok_error: "out_ok t upd (Inl e, t)"
  by (simp add: out_ok_def unchanged_frame_refl appended_def)

lemma aggregateMetrics_out_ok: "out_ok t upd (aggregateMetrics t p inc ms upd)"
proof (induction ms arbitrary: t upd)
  case Nil
  show ?case by (simp add: out_ok_return)
next
  case (Cons mc ms)
  show ?case
  proof (cases "aggregate mc")
    case None
    then show ?thesis by (simp add: Cons.IH)
  next
    case (Some rule)
    show ?thesis
    proof (cases "getValue (data t) (name mc) p")
      case (Inl e)
      with Some show ?thesis by (simp add: out_ok_error)
    next
      case old: (Inr old)
      show ?thesis
      proof (cases "aggregateValue rule (data t) (name mc) inc p old")
        case (Inl e)
        with Some old show ?thesis by (simp add: out_ok_error)
      next
        case (Inr newValue)
        with Some old show ?thesis
          by (simp del: split_paired_All) (rule out_ok_bind [OF setValue_out_ok], rule Cons.IH)
      qed
    qed
  qed
qed

lemma computeAggregate_out_ok: "out_ok t upd (computeAggregate t p inc upd)"
  by (simp add: computeAggregate_def aggregateMetrics_out_ok)

lemma aggregateQuarters_out_ok: "out_ok t upd (aggregateQuarters t y qs upd)"
proof (induction qs arbitrary: t upd)
  case Nil
  show ?case by (simp add: out_ok_return)
next
  case (Cons q qs)
  show ?case
    unfolding aggregateQuarters.simps
    by (rule out_ok_bind [OF computeAggregate_out_ok]) (rule Cons.IH)
qed

lemma aggregateQuarterYears_out_ok: "out_ok t upd (aggregateQuarterYears t ys upd)"
proof (induction ys arbitrary: t upd)
  case Nil
  show ?case by (simp add: out_ok_return)
next
  case (Cons y ys)
  show ?case
    unfolding aggregateQuarterYears.simps
    by (rule out_ok_bind [OF aggregateQuarters_out_ok]) (rule Cons.IH)
qed

lemma aggregateYears_out_ok: "out_ok t upd (aggregateYears t ys upd)"
proof (induction ys arbitrary: t upd)
  case Nil
  show ?case by (simp add: out_ok_return)
next
  case (Cons y ys)
  show ?case
    unfolding aggregateYears.simps
    by (rule out_ok_bind [OF computeAggregate_out_ok]) (rule Cons.IH)
qed

lemma computePeriods_frame:
  "computePeriods t ps ys upd = (r, t') \<Longrightarrow> unchanged_frame t t'"
proof (induction ps arbitrary: t ys upd)
  case Nil
  then show ?case by (simp add: unchanged_frame_refl)
next
  case (Cons p ps)
  obtain r1 t1 where step: "computeMetrics t p (metrics (configuration t)) upd = (r1, t1)"
    by (cases "computeMetrics t p (metrics (configuration t)) upd")
  have frame1: "unchanged_frame t t1"
    using computeMetrics_out_ok [of t upd p "metrics (configuration t)"] step
    by (simp add: out_ok_def)
  show ?case
  proof (cases r1)
    case (Inl e)
    with Cons.prems step frame1 show ?thesis by simp
  next
    case (Inr u)
    with Cons.prems step have "computePeriods t1 ps (set_add (year p) ys) u = (r, t')"
      by simp
    from Cons.IH [OF this] frame1 show ?thesis by (rule unchanged_frame_trans [rotated])
  qed
qed

lemma computePeriods_appended:
  "computePeriods t ps ys upd = (Inr (upd', ys'), t') \<Longrightarrow> appended upd (Inr upd')"
proof (induction ps arbitrary: t ys upd)
  case Nil
  then show ?case by (simp add: appended_refl)
next
  case (Cons p ps)
  obtain r1 t1 where step: "computeMetrics t p (metrics (configuration t)) upd = (r1, t1)"
    by (cases "computeMetrics t p (metrics (configuration t)) upd")
  have app1: "appended upd r1"
    using computeMetrics_out_ok [of t upd p "metrics (configuration t)"] step
    by (simp add: out_ok_def)
  show ?case
  proof (cases r1)
    case (Inl e)
    with Cons.prems step show ?thesis by simp
  next
    case (Inr u)
    with Cons.prems step
    have "computePeriods t1 ps (set_add (year p) ys) u = (Inr (upd', ys'), t')"
      by simp
    from Cons.IH [OF this] app1 Inr show ?thesis by (auto intro: appended_trans)
  qed
qed

lemma recompute_out_ok: "out_ok t upd (recompute t upd)"
proof -
  let ?ps = "filter (\<lambda>p. \<not> isAggregate (configuration t) p) (getPeriods (data t))"
  obtain r1 t1 where a: "computePeriods t ?ps [] upd = (r1, t1)"
    by (cases "computePeriods t ?ps [] upd")
  have f1: "unchanged_frame t t1" using a by (rule computePeriods_frame)
  show ?thesis
  proof (cases r1)
    case (Inl e)
    with a f1 show ?thesis by (simp add: recompute_def out_ok_def appended_def)
  next
    case (Inr res)
    obtain upd1 years where res: "res = (upd1, years)" by (cases res)
    have app1: "appended upd (Inr upd1)"
      using a Inr res by (auto intro: computePeriods_appended)
    let ?q = "if quarter_enabled (configuration t1)
              then aggregateQuarterYears t1 years upd1 else (Inr upd1, t1)"
    let ?y = "\<lambda>t2 upd2. if year_enabled (configuration t2)
              then aggregateYears t2 years upd2 else (Inr upd2, t2)"
    have q: "out_ok t1 upd1 ?q"
      by (simp add: aggregateQuarterYears_out_ok out_ok_return)
    have y: "\<And>t2 upd2. out_ok t2 upd2 (?y t2 upd2)"
      by (simp add: aggregateYears_out_ok out_ok_return)
    have "out_ok t1 upd1 (case ?q of (Inl e, t') \<Rightarrow> (Inl e, t') | (Inr u, t') \<Rightarrow> ?y t' u)"
      by (rule out_ok_bind [OF q]) (rule y)
    moreover have "recompute t upd
        = (case ?q of (Inl e, t') \<Rightarrow> (Inl e, t') | (Inr u, t') \<Rightarrow> ?y t' u)"
      using a Inr res by (simp add: recompute_def)
    ultimately show ?thesis
      using f1 app1
      by (cases "fst (recompute t upd)")
         (auto simp: out_ok_def intro: unchanged_frame_trans appended_trans)
  qed
qed

lemma update_out_ok: "out_ok t [] (update t vs)"
  unfolding update_def by (rule out_ok_bind [OF setValues_out_ok]) (rule recompute_out_ok)

section \<open>The scenario of the test suite\<close>

lemma keys_2023:
  "periodKey (Month (Num 1) (Num 2023)) = ''2023-01''"
  "periodKey (Month (Num 2) (Num 2023)) = ''2023-02''"
  "periodKey (Month (Num 3) (Num 2023)) = ''2023-03''"
  "periodKey (Month (Num 4) (Num 2023)) = ''2023-04''"
  "periodKey (Month (Num 5) (Num 2023)) = ''2023-05''"
  "periodKey (Month (Num 6) (Num 2023)) = ''2023-06''"
  "periodKey (Month (Num 7) (Num 2023)) = ''2023-07''"
  "periodKey (Month (Num 8) (Num 2023)) = ''2023-08''"
  "periodKey (Month (Num 9) (Num 2023)) = ''2023-09''"
  "periodKey (Month (Num 10) (Num 2023)) = ''2023-10''"
  "periodKey (Month (Num 11) (Num 2023)) = ''2023-11''"
  "periodKey (Month (Num 12) (Num 2023)) = ''2023-12''"
  "periodKey (Quarter (Num 1) (Num 2023)) = ''2023-33''"
  "periodKey (Quarter (Num 2) (Num 2023)) = ''2023-34''"
  "periodKey (Quarter (Num 3) (Num 2023)) = ''2023-35''"
  "periodKey (Quarter (Num 4) (Num 2023)) = ''2023-36''"
  "periodKey (Year (Num 2023)) = ''2023''"
  by (simp_all add: nat_digits.simps padStart2_def digit_char_def)

lemma from_keys_2023:
  "periodFromKey ''2023-01'' = Month (Num 1) (Num 2023)"
  "periodFromKey ''2023-12'' = Month (Num 12) (Num 2023)"
  "periodFromKey ''2023-33'' = Quarter (Num 1) (Num 2023)"
  "periodFromKey ''2023-34'' = Quarter (Num 2) (Num 2023)"
  "periodFromKey ''2023-35'' = Quarter (Num 3) (Num 2023)"
  "periodFromKey ''2023-36'' = Quarter (Num 4) (Num 2023)"
  "periodFromKey ''2023'' = Year (Num 2023)"
  by (simp_all add: periodFromKey_def parseInt_def is_digit_def is_space_def digits_val_def)

lemmas engine_defs = update_def recompute_def setValue_def getValue_def getPeriods_def
  new_Set_def set_add_def array_sort_def isAggregate_def isYear_def quarter_enabled_def
  year_enabled_def row_set_def row_delete_def differs_def computeAggregate_def
  valueOrZero_def getMonthsForYear_def average_def

lemma new_test_table: "new_MetricsTable test_configuration None = Inr test_table"
  by (simp add: new_MetricsTable_def test_configuration_def test_table_def new_Map_def)

lemma test_update_jan:
  "update test_table [write_jan] =
     (Inr [changed ''beginningMRR'' (Month (Num 1) (Num 2023)) (Some 10) None,
           changed ''endingMRR'' (Month (Num 1) (Num 2023)) (Some 10) None,
           changed ''beginningMRR'' (Quarter (Num 1) (Num 2023)) (Some 10) None,
           changed ''beginningMRR'' (Quarter (Num 2) (Num 2023)) (Some 0) None,
           changed ''beginningMRR'' (Quarter (Num 3) (Num 2023)) (Some 0) None,
           changed ''beginningMRR'' (Quarter (Num 4) (Num 2023)) (Some 0) None,
           changed ''beginningMRR'' (Year (Num 2023)) (Some 10) None],
      test_table_jan)"
  by (simp add: engine_defs test_table_def test_table_jan_def test_configuration_def
      write_jan_def jan_2023_def changed_def keys_2023 from_keys_2023 upt_rec numeral_nat
      del: periodKey.simps)

lemma test_update_dec:
  "fst (update test_table_jan [write_dec]) =
     Inr [changed ''beginningMRR'' (Month (Num 12) (Num 2023)) (Some 10) None,
          changed ''endingMRR'' (Month (Num 12) (Num 2023)) (Some 10) None,
          changed ''beginningMRR'' (Quarter (Num 4) (Num 2023)) (Some 10) (Some 0),
          changed ''beginningMRR'' (Year (Num 2023)) (Some 20) (Some 10)]"
  by (simp add: engine_defs test_table_jan_def test_configuration_def
      write_dec_def dec_2023_def changed_def keys_2023 from_keys_2023 upt_rec numeral_nat
      del: periodKey.simps)

text \<open>
  C4. The table of the test suite is built empty from its configuration
  (\<open>beginningMRR\<close> aggregated by sum, then \<open>endingMRR\<close> computed as a copy of
  \<open>beginningMRR\<close>, then a metric without rule; quarters and years enabled). Writing 10
  to \<open>beginningMRR\<close> for January 2023 returns, in this order, the changes of
  \<open>beginningMRR\<close> and \<open>endingMRR\<close> for January, of \<open>beginningMRR\<close> for the four
  quarters (10, 0, 0, 0) and for the year (10), each from absent. Writing 10 for
  December 2023 next returns the changes of both metrics for December, of the fourth
  quarter (0 to 10) and of the year (10 to 20), and nothing for the first three
  quarters.
\<close>

theorem aggregation_scenario:
  "new_MetricsTable test_configuration None = Inr test_table
   \<and> update test_table [write_jan] =
       (Inr [changed ''beginningMRR'' (Month (Num 1) (Num 2023)) (Some 10) None,
             changed ''endingMRR'' (Month (Num 1) (Num 2023)) (Some 10) None,
             changed ''beginningMRR'' (Quarter (Num 1) (Num 2023)) (Some 10) None,
             changed ''beginningMRR'' (Quarter (Num 2) (Num 2023)) (Some 0) None,
             changed ''beginningMRR'' (Quarter (Num 3) (Num 2023)) (Some 0) None,
             changed ''beginningMRR'' (Quarter (Num 4) (Num 2023)) (Some 0) None,
             changed ''beginningMRR'' (Year (Num 2023)) (Some 10) None],
        test_table_jan)
   \<and> fst (update test_table_jan [write_dec]) =
       Inr [changed ''beginningMRR'' (Month (Num 12) (Num 2023)) (Some 10) None,
            changed ''endingMRR'' (Month (Num 12) (Num 2023)) (Some 10) None,
            changed ''beginningMRR'' (Quarter (Num 4) (Num 2023)) (Some 10) (Some 0),
            changed ''beginningMRR'' (Year (Num 2023)) (Some 20) (Some 10)]"
  using new_test_table test_update_jan test_update_dec by (intro conjI)

section \<open>When the methods return\<close>

lemma getValue_known:
  "m \<in> fst ` set d \<Longrightarrow> getValue d m p = Inr (map_of (the (map_of d m)) (periodKey p))"
  by (auto simp: getValue_def map_of_eq_None_iff split: option.splits)

lemma getValue_unknown: "m \<notin> fst ` set d \<Longrightarrow> getValue d m p = Inl (UnknownMetric m)"
  by (auto simp: getValue_def map_of_eq_None_iff [symmetric] split: option.splits)

lemma setValue_unknown:
  "m \<notin> fst ` set (data t) \<Longrightarrow> setValue t m p v upd = (Inl (UnknownMetric m), t)"
  by (simp add: setValue_def map_of_eq_None_iff)

lemma setValue_known:
  "m \<in> fst ` set (data t) \<Longrightarrow> \<exists>u t'. setValue t m p v upd = (Inr u, t')"
  by (auto simp: setValue_def getValue_known map_of_eq_None_iff)

lemma rows_for_frame: "unchanged_frame t t' \<Longrightarrow> rows_for t ms \<Longrightarrow> rows_for t' ms"
  by (simp add: rows_for_def unchanged_frame_def)

lemma rows_for_Cons: "rows_for t (mc # ms) = (name mc \<in> fst ` set (data t) \<and> rows_for t ms)"
  by (simp add: rows_for_def)

lemma out_ok_frame: "out_ok t upd (r, t') \<Longrightarrow> unchanged_frame t t'"
  by (simp add: out_ok_def)

lemma computeMetrics_returns:
  "rows_for t ms \<Longrightarrow> \<exists>u t'. computeMetrics t p ms upd = (Inr u, t')"
proof (induction ms arbitrary: t upd)
  case Nil
  show ?case by simp
next
  case (Cons mc ms)
  from Cons.prems have known: "name mc \<in> fst ` set (data t)" and rest: "rows_for t ms"
    by (simp_all add: rows_for_Cons)
  show ?case
  proof (cases "compute mc")
    case None
    with Cons.IH [OF rest] show ?thesis by simp
  next
    case (Some f)
    let ?v = "f (data t) p (map_of (the (map_of (data t) (name mc))) (periodKey p))"
    from setValue_known [OF known] obtain u t1
      where step: "setValue t (name mc) p ?v upd = (Inr u, t1)" by blast
    have "unchanged_frame t t1"
      using setValue_out_ok [of t upd "name mc" p ?v] step by (simp add: out_ok_def)
    then have "rows_for t1 ms" using rest by (rule rows_for_frame)
    from Cons.IH [OF this] show ?thesis
      using Some step by (simp add: getValue_known [OF known])
  qed
qed

lemma computePeriods_returns:
  "rows_for t (metrics (configuration t))
   \<Longrightarrow> \<exists>u ys' t'. computePeriods t ps ys upd = (Inr (u, ys'), t')"
proof (induction ps arbitrary: t ys upd)
  case Nil
  show ?case by simp
next
  case (Cons p ps)
  from computeMetrics_returns [OF Cons.prems] obtain u t1
    where step: "computeMetrics t p (metrics (configuration t)) upd = (Inr u, t1)" by blast
  have frame: "unchanged_frame t t1"
    using computeMetrics_out_ok [of t upd p "metrics (configuration t)"] step
    by (simp add: out_ok_def)
  then have "rows_for t1 (metrics (configuration t1))"
    using Cons.prems by (simp add: rows_for_def unchanged_frame_def)
  from Cons.IH [OF this] show ?case using step by simp
qed

lemma aggregateValue_returns:
  "m \<in> fst ` set d \<Longrightarrow> inc \<noteq> [] \<Longrightarrow> \<exists>v. aggregateValue rule d m inc p old = Inr v"
  by (cases rule) (auto simp: getValue_known split: list.splits)

lemma aggregateMetrics_returns:
  "rows_for t ms \<Longrightarrow> inc \<noteq> [] \<Longrightarrow> \<exists>u t'. aggregateMetrics t p inc ms upd = (Inr u, t')"
proof (induction ms arbitrary: t upd)
  case Nil
  show ?case by simp
next
  case (Cons mc ms)
  from Cons.prems have known: "name mc \<in> fst ` set (data t)" and rest: "rows_for t ms"
    by (simp_all add: rows_for_Cons)
  show ?case
  proof (cases "aggregate mc")
    case None
    with Cons.IH [OF rest Cons.prems(2)] show ?thesis by simp
  next
    case (Some rule)
    let ?old = "map_of (the (map_of (data t) (name mc))) (periodKey p)"
    from aggregateValue_returns [OF known Cons.prems(2)] obtain v
      where v: "aggregateValue rule (data t) (name mc) inc p ?old = Inr v" by blast
    from setValue_known [OF known] obtain u t1
      where step: "setValue t (name mc) p v upd = (Inr u, t1)" by blast
    have "unchanged_frame t t1"
      using setValue_out_ok [of t upd "name mc" p v] step by (simp add: out_ok_def)
    then have "rows_for t1 ms" using rest by (rule rows_for_frame)
    from Cons.IH [OF this Cons.prems(2)] show ?thesis
      using Some step v by (simp add: getValue_known [OF known])
  qed
qed

lemma rows_for_configuration_frame:
  "unchanged_frame t t' \<Longrightarrow> rows_for t (metrics (configuration t))
   \<Longrightarrow> rows_for t' (metrics (configuration t'))"
  by (simp add: rows_for_def unchanged_frame_def)

lemma computeAggregate_returns:
  "rows_for t (metrics (configuration t)) \<Longrightarrow> inc \<noteq> []
   \<Longrightarrow> \<exists>u t'. computeAggregate t p inc upd = (Inr u, t')"
  by (simp add: computeAggregate_def aggregateMetrics_returns)

lemma getMonthsForQuarter_nonempty: "getMonthsForQuarter p \<noteq> []"
  by (cases p) (simp_all add: upt_rec)

lemma getMonthsForYear_nonempty: "getMonthsForYear p \<noteq> []"
  by (simp add: getMonthsForYear_def)

lemma aggregateQuarters_returns:
  "rows_for t (metrics (configuration t))
   \<Longrightarrow> \<exists>u t'. aggregateQuarters t y qs upd = (Inr u, t')"
proof (induction qs arbitrary: t upd)
  case Nil
  show ?case by simp
next
  case (Cons q qs)
  let ?p = "Quarter (Num q) y"
  from computeAggregate_returns [OF Cons.prems getMonthsForQuarter_nonempty] obtain u t1
    where step: "computeAggregate t ?p (getMonthsForQuarter ?p) upd = (Inr u, t1)" by blast
  have "unchanged_frame t t1"
    using computeAggregate_out_ok [of t upd ?p "getMonthsForQuarter ?p"] step
    by (simp add: out_ok_def)
  then have "rows_for t1 (metrics (configuration t1))"
    using Cons.prems by (rule rows_for_configuration_frame)
  from Cons.IH [OF this] show ?case using step by simp
qed

lemma aggregateQuarterYears_returns:
  "rows_for t (metrics (configuration t))
   \<Longrightarrow> \<exists>u t'. aggregateQuarterYears t ys upd = (Inr u, t')"
proof (induction ys arbitrary: t upd)
  case Nil
  show ?case by simp
next
  case (Cons y ys)
  from aggregateQuarters_returns [OF Cons.prems] obtain u t1
    where step: "aggregateQuarters t y [1, 2, 3, 4] upd = (Inr u, t1)" by blast
  have "unchanged_frame t t1"
    using aggregateQuarters_out_ok [of t upd y "[1, 2, 3, 4]"] step
    by (simp add: out_ok_def)
  then have "rows_for t1 (metrics (configuration t1))"
    using Cons.prems by (rule rows_for_configuration_frame)
  from Cons.IH [OF this] show ?case using step by simp
qed

lemma aggregateYears_returns:
  "rows_for t (metrics (configuration t))
   \<Longrightarrow> \<exists>u t'. aggregateYears t ys upd = (Inr u, t')"
proof (induction ys arbitrary: t upd)
  case Nil
  show ?case by simp
next
  case (Cons y ys)
  from computeAggregate_returns [OF Cons.prems getMonthsForYear_nonempty] obtain u t1
    where step: "computeAggregate t (Year y) (getMonthsForYear (Year y)) upd = (Inr u, t1)"
    by blast
  have "unchanged_frame t t1"
    using computeAggregate_out_ok [of t upd "Year y" "getMonthsForYear (Year y)"] step
    by (simp add: out_ok_def)
  then have "rows_for t1 (metrics (configuration t1))"
    using Cons.prems by (rule rows_for_configuration_frame)
  from Cons.IH [OF this] show ?case using step by simp
qed

lemma recompute_returns:
  assumes "rows_for t (metrics (configuration t))"
  shows "\<exists>u t'. recompute t upd = (Inr u, t')"
proof -
  let ?ps = "filter (\<lambda>p. \<not> isAggregate (configuration t) p) (getPeriods (data t))"
  from computePeriods_returns [OF assms] obtain upd1 years t1
    where a: "computePeriods t ?ps [] upd = (Inr (upd1, years), t1)" by blast
  have "unchanged_frame t t1" using a by (rule computePeriods_frame)
  then have rows1: "rows_for t1 (metrics (configuration t1))"
    using assms by (rule rows_for_configuration_frame)
  let ?q = "if quarter_enabled (configuration t1)
            then aggregateQuarterYears t1 years upd1 else (Inr upd1, t1)"
  have "\<exists>upd2 t2. ?q = (Inr upd2, t2)"
    using aggregateQuarterYears_returns [OF rows1, of years upd1] by simp
  then obtain upd2 t2 where q: "?q = (Inr upd2, t2)" by blast
  have "out_ok t1 upd1 ?q"
    by (simp add: aggregateQuarterYears_out_ok out_ok_return)
  then have "unchanged_frame t1 t2" using q by (simp add: out_ok_def)
  then have rows2: "rows_for t2 (metrics (configuration t2))"
    using rows1 by (rule rows_for_configuration_frame)
  have "\<exists>u t'. (if year_enabled (configuration t2)
                then aggregateYears t2 years upd2 else (Inr upd2, t2)) = (Inr u, t')"
    using aggregateYears_returns [OF rows2, of years upd2] by simp
  then show ?thesis using a q by (simp add: recompute_def)
qed

lemma table_ok_rows: "table_ok t \<Longrightarrow> rows_for t (metrics (configuration t))"
  by (simp add: table_ok_def rows_for_def declared_def)

lemma table_ok_frame: "unchanged_frame t t' \<Longrightarrow> table_ok t \<Longrightarrow> table_ok t'"
  by (simp add: table_ok_def unchanged_frame_def declared_def)

lemma declared_frame: "unchanged_frame t t' \<Longrightarrow> declared t' = declared t"
  by (simp add: unchanged_frame_def declared_def)

lemma setValues_known:
  "\<forall>v\<in>set vs. metric v \<in> fst ` set (data t) \<Longrightarrow> \<exists>u t'. setValues t vs upd = (Inr u, t')"
proof (induction vs arbitrary: t upd)
  case Nil
  show ?case by simp
next
  case (Cons v vs)
  from Cons.prems have "metric v \<in> fst ` set (data t)" by simp
  from setValue_known [OF this] obtain u t1
    where step: "setValue t (metric v) (period v) (val v) upd = (Inr u, t1)" by blast
  have "unchanged_frame t t1"
    using setValue_out_ok [of t upd "metric v" "period v" "val v"] step
    by (simp add: out_ok_def)
  then have "\<forall>v\<in>set vs. metric v \<in> fst ` set (data t1)"
    using Cons.prems by (simp add: unchanged_frame_def) (metis list.set_map)
  from Cons.IH [OF this] show ?case using step by simp
qed

lemma setValues_append_unknown:
  assumes "\<forall>v\<in>set pre. metric v \<in> fst ` set (data t)"
    and "metric bad \<notin> fst ` set (data t)"
  shows "setValues t (pre @ bad # post) upd
         = (Inl (UnknownMetric (metric bad)), snd (setValues t pre upd))"
  using assms
proof (induction pre arbitrary: t upd)
  case Nil
  then show ?case by (simp add: setValue_unknown)
next
  case (Cons v vs)
  from Cons.prems have "metric v \<in> fst ` set (data t)" by simp
  from setValue_known [OF this] obtain u t1
    where step: "setValue t (metric v) (period v) (val v) upd = (Inr u, t1)" by blast
  have frame: "unchanged_frame t t1"
    using setValue_out_ok [of t upd "metric v" "period v" "val v"] step
    by (simp add: out_ok_def)
  then have keys: "fst ` set (data t1) = fst ` set (data t)"
    by (simp add: unchanged_frame_def) (metis list.set_map)
  with Cons.prems have "\<forall>v\<in>set vs. metric v \<in> fst ` set (data t1)"
    and "metric bad \<notin> fst ` set (data t1)" by simp_all
  from Cons.IH [OF this] show ?case using step by simp
qed

section \<open>The unknown metric\<close>

lemma table_ok_keys: "table_ok t \<Longrightarrow> fst ` set (data t) = declared t"
  by (simp add: table_ok_def)

lemma update_returns:
  assumes "table_ok t" and "\<forall>v\<in>set vs. metric v \<in> declared t"
  shows "\<exists>u t'. update t vs = (Inr u, t')"
proof -
  from assms have "\<forall>v\<in>set vs. metric v \<in> fst ` set (data t)"
    by (simp add: table_ok_keys)
  from setValues_known [OF this] obtain u1 t1
    where w: "setValues t vs [] = (Inr u1, t1)" by blast
  have "unchanged_frame t t1"
    using setValues_out_ok [of t "[]" vs] w by (simp add: out_ok_def)
  then have "table_ok t1" using assms(1) by (rule table_ok_frame)
  then have "rows_for t1 (metrics (configuration t1))" by (rule table_ok_rows)
  from recompute_returns [OF this] show ?thesis using w by (simp add: update_def)
qed

lemma update_raises:
  assumes "table_ok t" and "\<forall>v\<in>set pre. metric v \<in> declared t"
    and "metric bad \<notin> declared t"
  shows "update t (pre @ bad # post)
         = (Inl (UnknownMetric (metric bad)), snd (setValues t pre []))"
proof -
  from assms have "\<forall>v\<in>set pre. metric v \<in> fst ` set (data t)"
    and "metric bad \<notin> fst ` set (data t)"
    by (simp_all add: table_ok_keys)
  from setValues_append_unknown [OF this] show ?thesis by (simp add: update_def)
qed

lemma keys_update: "fst ` set (AList.update k v al) = insert k (fst ` set al)"
  by (induction al) auto

lemma keys_new_Map_step:
  "fst ` set (foldl (\<lambda>m (k, v). AList.update k v m) acc es) = fst ` set acc \<union> fst ` set es"
proof (induction es arbitrary: acc)
  case Nil
  show ?case by simp
next
  case (Cons e es)
  obtain k v where e: "e = (k, v)" by (cases e)
  have "fst ` set (foldl (\<lambda>m (k, v). AList.update k v m) acc (e # es))
        = fst ` set (AList.update k v acc) \<union> fst ` set es"
    by (simp add: e Cons.IH)
  also have "\<dots> = fst ` set acc \<union> fst ` set (e # es)"
    by (simp add: keys_update e)
  finally show ?case .
qed

lemma keys_new_Map: "fst ` set (new_Map es) = fst ` set es"
  by (simp add: new_Map_def keys_new_Map_step)

lemma new_MetricsTable_ok: "new_MetricsTable c initialData = Inr t \<Longrightarrow> table_ok t"
proof -
  assume new: "new_MetricsTable c initialData = Inr t"
  let ?t0 = "\<lparr>configuration = c, data = new_Map (map (\<lambda>mc. (name mc, [])) (metrics c))\<rparr>"
  have ok0: "table_ok ?t0"
    by (simp add: table_ok_def declared_def keys_new_Map image_image)
  show ?thesis
  proof (cases initialData)
    case None
    with new ok0 show ?thesis by (simp add: new_MetricsTable_def)
  next
    case (Some vs)
    obtain r t1 where u: "update ?t0 vs = (r, t1)" by (cases "update ?t0 vs")
    have "unchanged_frame ?t0 t1"
      using update_out_ok [of ?t0 vs] u by (simp add: out_ok_def)
    then have "table_ok t1" using ok0 by (rule table_ok_frame)
    with new Some u show ?thesis
      by (cases r) (simp_all add: new_MetricsTable_def Let_def)
  qed
qed

lemma update_keeps_ok: "table_ok t \<Longrightarrow> table_ok (snd (update t vs))"
  using update_out_ok [of t vs] by (auto simp: out_ok_def intro: table_ok_frame)

lemma subscribe_unknown:
  assumes "subscribable_ok st" and "m \<notin> declared (table st)"
  shows "fst (subscribe st m p cb) = Inl (UnknownMetric m)"
proof -
  let ?subs = "case subscriptions st of
                 None \<Rightarrow> new_Map (map (\<lambda>mc. (name mc, [])) (metrics (configuration (table st))))
               | Some s \<Rightarrow> s"
  have "fst ` set ?subs = declared (table st)"
    using assms(1)
    by (auto simp: subscribable_ok_def declared_def keys_new_Map image_image split: option.splits)
  with assms(2) have "map_of ?subs m = None" by (simp add: map_of_eq_None_iff)
  then show ?thesis by (simp add: subscribe_def Let_def)
qed

lemma subscribe_known:
  assumes "subscribable_ok st" and "m \<in> declared (table st)"
  shows "\<exists>u. fst (subscribe st m p cb) = Inr u"
proof -
  let ?subs = "case subscriptions st of
                 None \<Rightarrow> new_Map (map (\<lambda>mc. (name mc, [])) (metrics (configuration (table st))))
               | Some s \<Rightarrow> s"
  have "fst ` set ?subs = declared (table st)"
    using assms(1)
    by (auto simp: subscribable_ok_def declared_def keys_new_Map image_image split: option.splits)
  with assms(2) have "map_of ?subs m \<noteq> None" by (simp add: map_of_eq_None_iff)
  then obtain byKey where "map_of ?subs m = Some byKey" by blast
  then show ?thesis by (simp add: subscribe_def Let_def split: option.splits)
qed

lemma test_table_ok: "table_ok test_table"
  by (auto simp: table_ok_def declared_def test_table_def test_configuration_def)

lemma declared_test_table:
  "declared test_table = {''beginningMRR'', ''endingMRR'', ''anotherMetric''}"
  by (auto simp: declared_def test_table_def test_configuration_def)

lemma test_subscribable_ok: "subscribable_ok test_subscribable"
  by (simp add: subscribable_ok_def test_subscribable_def test_table_ok)

lemma table_test_subscribable: "table test_subscribable = test_table"
  by (simp add: test_subscribable_def)

text \<open>
  C7. On a table whose rows are the declared metrics (what the constructor builds and
  every method keeps), \<open>getValue\<close>, \<open>update\<close> and \<open>subscribe\<close> raise \<open>UnknownMetric\<close> for
  a metric name that is not declared, \<open>update\<close> for the first such name among its
  triples, and they return when every name they are given is declared. So no other
  error is raised. The rules of the configuration are pure and total in the model.
\<close>

theorem unknown_metric_only_error:
  assumes "table_ok t" and "subscribable_ok st"
  shows "(m \<notin> declared t \<longrightarrow> getValue (data t) m p = Inl (UnknownMetric m))
       \<and> (m \<in> declared t \<longrightarrow> (\<exists>v. getValue (data t) m p = Inr v))
       \<and> ((\<forall>v\<in>set pre. metric v \<in> declared t) \<and> metric bad \<notin> declared t \<longrightarrow>
            fst (update t (pre @ bad # post)) = Inl (UnknownMetric (metric bad)))
       \<and> ((\<forall>v\<in>set values. metric v \<in> declared t) \<longrightarrow> (\<exists>u. fst (update t values) = Inr u))
       \<and> (m \<notin> declared (table st) \<longrightarrow> fst (subscribe st m p cb) = Inl (UnknownMetric m))
       \<and> (m \<in> declared (table st) \<longrightarrow> (\<exists>u. fst (subscribe st m p cb) = Inr u))"
proof (intro conjI impI)
  assume "m \<notin> declared t"
  then show "getValue (data t) m p = Inl (UnknownMetric m)"
    using assms(1) by (simp add: getValue_unknown table_ok_keys)
next
  assume "m \<in> declared t"
  then show "\<exists>v. getValue (data t) m p = Inr v"
    using assms(1) by (simp add: getValue_known table_ok_keys)
next
  assume "(\<forall>v\<in>set pre. metric v \<in> declared t) \<and> metric bad \<notin> declared t"
  then show "fst (update t (pre @ bad # post)) = Inl (UnknownMetric (metric bad))"
    using update_raises [OF assms(1), of pre bad post] by simp
next
  assume "\<forall>v\<in>set values. metric v \<in> declared t"
  from update_returns [OF assms(1) this]
  show "\<exists>u. fst (update t values) = Inr u" by auto
next
  assume "m \<notin> declared (table st)"
  then show "fst (subscribe st m p cb) = Inl (UnknownMetric m)"
    using assms(2) by (simp add: subscribe_unknown)
next
  assume "m \<in> declared (table st)"
  then show "\<exists>u. fst (subscribe st m p cb) = Inr u"
    using assms(2) by (simp add: subscribe_known)
qed

theorem unknown_metric_only_error_witness:
  "table_ok test_table \<and> subscribable_ok test_subscribable
   \<and> ''unknown'' \<notin> declared test_table
   \<and> getValue (data test_table) ''unknown'' jan_2023 = Inl (UnknownMetric ''unknown'')
   \<and> ''beginningMRR'' \<in> declared test_table
   \<and> (\<exists>v. getValue (data test_table) ''beginningMRR'' jan_2023 = Inr v)
   \<and> list_all (\<lambda>v. metric v \<in> declared test_table) [write_jan]
   \<and> fst (update test_table ([write_jan] @ write_unknown # [write_dec]))
       = Inl (UnknownMetric ''unknown'')
   \<and> (\<exists>u. fst (update test_table [write_jan]) = Inr u)
   \<and> fst (subscribe test_subscribable ''unknown'' jan_2023 7) = Inl (UnknownMetric ''unknown'')
   \<and> (\<exists>u. fst (subscribe test_subscribable ''beginningMRR'' jan_2023 7) = Inr u)"
  using unknown_metric_only_error [OF test_table_ok test_subscribable_ok,
      of "''unknown''" jan_2023 "[write_jan]" write_unknown "[write_dec]" "[write_jan]" 7]
    unknown_metric_only_error [OF test_table_ok test_subscribable_ok,
      of "''beginningMRR''" jan_2023 "[write_jan]" write_unknown "[write_dec]" "[write_jan]" 7]
  by (simp add: test_table_ok test_subscribable_ok declared_test_table write_jan_def
      write_unknown_def table_test_subscribable)

section \<open>An update that raises\<close>

lemma update_resolves:
  assumes "table_ok t" and "\<forall>v\<in>set vs. metric v \<in> declared t"
  shows "\<exists>written tw updated t'.
           setValues t vs [] = (Inr written, tw)
           \<and> recompute tw written = (Inr updated, t')
           \<and> update t vs = (Inr updated, t')"
proof -
  from assms have "\<forall>v\<in>set vs. metric v \<in> fst ` set (data t)"
    by (simp add: table_ok_keys)
  from setValues_known [OF this] obtain u1 t1
    where w: "setValues t vs [] = (Inr u1, t1)" by blast
  have "unchanged_frame t t1"
    using setValues_out_ok [of t "[]" vs] w by (simp add: out_ok_def)
  then have "table_ok t1" using assms(1) by (rule table_ok_frame)
  then have "rows_for t1 (metrics (configuration t1))" by (rule table_ok_rows)
  from recompute_returns [OF this] obtain u t' where r: "recompute t1 u1 = (Inr u, t')"
    by blast
  with w have "update t vs = (Inr u, t')" by (simp add: update_def)
  with w r show ?thesis by blast
qed

text \<open>
  C8, as the code has it. There is no roll-back: \<open>update\<close> writes the triples in order
  and raises at the first one that names an undeclared metric. When every triple names
  a declared metric, \<open>update\<close> returns, with the writes, the recomputation and the
  aggregation done. Otherwise it raises \<open>UnknownMetric\<close> for the first undeclared name,
  the triples before it have been written, nothing has been recomputed, and the table
  is the one before the call when that triple is the first.
\<close>

theorem update_stops_at_first_unknown:
  assumes "table_ok t"
  shows "((\<forall>v\<in>set values. metric v \<in> declared t) \<longrightarrow>
            (\<exists>written tw updated t'.
               setValues t values [] = (Inr written, tw)
               \<and> recompute tw written = (Inr updated, t')
               \<and> update t values = (Inr updated, t')))
       \<and> ((\<forall>v\<in>set pre. metric v \<in> declared t) \<and> metric bad \<notin> declared t \<longrightarrow>
            update t (pre @ bad # post)
              = (Inl (UnknownMetric (metric bad)), snd (setValues t pre []))
            \<and> update t (bad # post) = (Inl (UnknownMetric (metric bad)), t))"
proof (intro conjI impI)
  assume "\<forall>v\<in>set values. metric v \<in> declared t"
  then show "\<exists>written tw updated t'.
               setValues t values [] = (Inr written, tw)
               \<and> recompute tw written = (Inr updated, t')
               \<and> update t values = (Inr updated, t')"
    by (rule update_resolves [OF assms])
next
  assume a: "(\<forall>v\<in>set pre. metric v \<in> declared t) \<and> metric bad \<notin> declared t"
  then show "update t (pre @ bad # post)
             = (Inl (UnknownMetric (metric bad)), snd (setValues t pre []))"
    by (simp add: update_raises [OF assms])
  from a show "update t (bad # post) = (Inl (UnknownMetric (metric bad)), t)"
    using update_raises [OF assms, of "[]" bad post] by simp
qed

theorem update_stops_at_first_unknown_witness:
  "table_ok test_table
   \<and> list_all (\<lambda>v. metric v \<in> declared test_table) [write_jan]
   \<and> metric write_unknown \<notin> declared test_table
   \<and> (\<exists>written tw updated t'.
         setValues test_table [write_jan] [] = (Inr written, tw)
         \<and> recompute tw written = (Inr updated, t')
         \<and> update test_table [write_jan] = (Inr updated, t'))
   \<and> update test_table ([write_jan] @ write_unknown # [write_dec])
       = (Inl (UnknownMetric (metric write_unknown)), snd (setValues test_table [write_jan] []))
   \<and> update test_table (write_unknown # [write_dec])
       = (Inl (UnknownMetric (metric write_unknown)), test_table)"
  using update_stops_at_first_unknown [OF test_table_ok,
      of "[write_jan]" "[write_jan]" write_unknown "[write_dec]"]
  by (simp add: test_table_ok declared_test_table write_jan_def write_unknown_def)

text \<open>
  C8 as stated fails when a triple with an undeclared metric follows one with a
  declared metric: \<open>update\<close> raises, and the value written by the first triple can be
  read afterwards, and its period is listed, while nothing was computed from it.
\<close>

theorem update_not_atomic_counterexample:
  "fst (update test_table [write_jan, write_unknown]) = Inl (UnknownMetric ''unknown'')
   \<and> getValue (data test_table) ''beginningMRR'' jan_2023 = Inr None
   \<and> getValue (data (snd (update test_table [write_jan, write_unknown])))
        ''beginningMRR'' jan_2023 = Inr (Some 10)
   \<and> getPeriods (data test_table) = []
   \<and> getPeriods (data (snd (update test_table [write_jan, write_unknown]))) = [jan_2023]"
  by (simp add: engine_defs test_table_def test_configuration_def write_jan_def
      write_unknown_def jan_2023_def keys_2023 from_keys_2023 del: periodKey.simps)

section \<open>The changed-values list\<close>

lemma setValue_same:
  "getValue (data t) m p = Inr (Some v) \<Longrightarrow> setValue t m p (Some v) upd = (Inr upd, t)"
  by (auto simp: setValue_def getValue_def differs_def split: option.splits)

lemma update_entries:
  assumes "update t vs = (Inr updated, t')"
  shows "list_all real_change updated"
  using update_out_ok [of t vs] assms by (simp add: out_ok_def appended_def)

text \<open>
  C1, as the code has it. Every entry of the list \<open>update\<close> returns in which the old or
  the new value is present has a new value different from the old one. A triple whose
  value is the value stored for its metric and period writes nothing and adds no
  entry: \<open>update\<close> with that triple alone returns the list and leaves the table that
  \<open>update\<close> without a triple does, which are those of the recomputation.
\<close>

theorem update_changes:
  "(update t values = (Inr updated, t') \<longrightarrow>
      (\<forall>e\<in>set updated. (val e \<noteq> None \<or> oldValue e \<noteq> None) \<longrightarrow> val e \<noteq> oldValue e))
   \<and> (getValue (data t) m p = Inr (Some v) \<longrightarrow>
        update t [\<lparr>metric = m, period = p, val = Some v\<rparr>] = update t [])"
proof (intro conjI impI ballI)
  fix e
  assume "update t values = (Inr updated, t')" and "e \<in> set updated"
    and "val e \<noteq> None \<or> oldValue e \<noteq> None"
  with update_entries [of t "values" updated t'] show "val e \<noteq> oldValue e"
    by (auto simp: list_all_iff real_change_def)
next
  assume "getValue (data t) m p = Inr (Some v)"
  then show "update t [\<lparr>metric = m, period = p, val = Some v\<rparr>] = update t []"
    by (simp add: update_def setValue_same)
qed

theorem update_changes_witness:
  "fst (update test_table_jan [write_dec]) =
     Inr [changed ''beginningMRR'' (Month (Num 12) (Num 2023)) (Some 10) None,
          changed ''endingMRR'' (Month (Num 12) (Num 2023)) (Some 10) None,
          changed ''beginningMRR'' (Quarter (Num 4) (Num 2023)) (Some 10) (Some 0),
          changed ''beginningMRR'' (Year (Num 2023)) (Some 20) (Some 10)]
   \<and> list_all (\<lambda>e. val e \<noteq> oldValue e)
        [changed ''beginningMRR'' (Month (Num 12) (Num 2023)) (Some 10) None,
         changed ''endingMRR'' (Month (Num 12) (Num 2023)) (Some 10) None,
         changed ''beginningMRR'' (Quarter (Num 4) (Num 2023)) (Some 10) (Some 0),
         changed ''beginningMRR'' (Year (Num 2023)) (Some 20) (Some 10)]
   \<and> getValue (data test_table_jan) ''beginningMRR'' jan_2023 = Inr (Some 10)
   \<and> update test_table_jan [write_jan] = update test_table_jan []"
proof -
  let ?L = "[changed ''beginningMRR'' (Month (Num 12) (Num 2023)) (Some 10) None,
          changed ''endingMRR'' (Month (Num 12) (Num 2023)) (Some 10) None,
          changed ''beginningMRR'' (Quarter (Num 4) (Num 2023)) (Some 10) (Some 0),
          changed ''beginningMRR'' (Year (Num 2023)) (Some 20) (Some 10)]"
  have u: "update test_table_jan [write_dec] = (Inr ?L, snd (update test_table_jan [write_dec]))"
    using test_update_dec by (simp add: prod_eq_iff)
  have g: "getValue (data test_table_jan) ''beginningMRR'' jan_2023 = Inr (Some 10)"
    by (simp add: getValue_def test_table_jan_def jan_2023_def keys_2023 del: periodKey.simps)
  show ?thesis
    using update_changes [of test_table_jan "[write_dec]" ?L
        "snd (update test_table_jan [write_dec])" "''beginningMRR''" jan_2023 10]
      u g test_update_dec
    by (simp add: write_jan_def changed_def)
qed

text \<open>
  C1 as stated fails where the recomputation that every \<open>update\<close> runs has something
  to change. In the chain \<open>a\<close> copies \<open>b\<close> and \<open>b\<close> copies \<open>c\<close>, in this order of
  declaration, so \<open>a\<close> is one pass behind. After 10 was written to \<open>c\<close>, writing 10 to
  \<open>c\<close> again returns a list that is not empty, and the cell of \<open>a\<close> has changed.
\<close>

theorem update_equal_value_counterexample:
  "snd (update chain_table [write_c]) = chain_table_c
   \<and> getValue (data chain_table_c) ''c'' jan_2023 = Inr (Some 10)
   \<and> getValue (data chain_table_c) ''a'' jan_2023 = Inr None
   \<and> fst (update chain_table_c [write_c]) = Inr [changed ''a'' jan_2023 (Some 10) None]
   \<and> getValue (data (snd (update chain_table_c [write_c]))) ''a'' jan_2023 = Inr (Some 10)"
  by (simp add: engine_defs chain_table_def chain_table_c_def chain_configuration_def
      copy_of_def write_c_def jan_2023_def changed_def keys_2023 from_keys_2023
      del: periodKey.simps)

text \<open>
  An entry is also recorded when absent is written to an absent cell: the guard of
  \<open>setValue\<close> is true whenever the old value is absent.
\<close>

lemma absent_to_absent_is_recorded:
  "update test_table [clear_another] =
     (Inr [changed ''anotherMetric'' jan_2023 None None], test_table)"
  by (simp add: engine_defs test_table_def test_configuration_def clear_another_def
      jan_2023_def changed_def keys_2023 from_keys_2023 del: periodKey.simps)

section \<open>Subscriptions\<close>

lemma test_subscribe_first:
  "subscribe test_subscribable ''beginningMRR'' jan_2023 7
   = (Inr (Unsubscribe None 7), test_subscribed)"
  by (simp add: subscribe_def test_subscribable_def test_subscribed_def test_table_def
      test_configuration_def new_Map_def jan_2023_def keys_2023 del: periodKey.simps)

lemma test_subscribe_second:
  "subscribe test_subscribed ''beginningMRR'' jan_2023 8
   = (Inr (Unsubscribe (Some (''beginningMRR'', ''2023-01'')) 8),
      test_subscribed\<lparr>subscriptions :=
        Some [(''beginningMRR'', [(''2023-01'', [7, 8])]), (''endingMRR'', []),
              (''anotherMetric'', [])]\<rparr>)"
  by (simp add: subscribe_def test_subscribed_def set_add_def jan_2023_def keys_2023 Let_def
      del: periodKey.simps)

lemma test_unsubscribe_second:
  "call_unsubscribe (Unsubscribe (Some (''beginningMRR'', ''2023-01'')) 8)
     (test_subscribed\<lparr>subscriptions :=
        Some [(''beginningMRR'', [(''2023-01'', [7, 8])]), (''endingMRR'', []),
              (''anotherMetric'', [])]\<rparr>)
   = test_subscribed"
  by (simp add: test_subscribed_def)

lemma table_test_subscribed: "table test_subscribed = test_table"
  by (simp add: test_subscribed_def)

lemma test_subscribed_fires:
  "fst (snd (subscribable_update test_subscribed [write_jan])) = [7]"
  by (simp add: subscribable_update_def table_test_subscribed test_update_jan subscribers_def
      changed_def)
     (simp add: test_subscribed_def keys_2023 del: periodKey.simps)

text \<open>
  C5 at the input where the code leaves it. The first callback subscribed for a
  metric and a period gets a function that closes over an undefined \<open>existing\<close>:
  calling it leaves the subscriptions as they are, and the callback is still called by
  the next update of its cell. A callback subscribed second for the same cell gets a
  function that removes it, and only it.
\<close>

theorem first_subscriber_stays:
  "subscribe test_subscribable ''beginningMRR'' jan_2023 7
     = (Inr (Unsubscribe None 7), test_subscribed)
   \<and> call_unsubscribe (Unsubscribe None 7) test_subscribed = test_subscribed
   \<and> fst (snd (subscribable_update (call_unsubscribe (Unsubscribe None 7) test_subscribed)
                  [write_jan])) = [7]
   \<and> fst (subscribe test_subscribed ''beginningMRR'' jan_2023 8)
       = Inr (Unsubscribe (Some (''beginningMRR'', ''2023-01'')) 8)
   \<and> fst (snd (subscribable_update
                  (call_unsubscribe (Unsubscribe (Some (''beginningMRR'', ''2023-01'')) 8)
                     (snd (subscribe test_subscribed ''beginningMRR'' jan_2023 8)))
                  [write_jan])) = [7]"
  by (simp add: test_subscribe_first test_subscribe_second test_unsubscribe_second
      test_subscribed_fires del: call_unsubscribe.simps(2))

lemma count_list_distinct: "distinct xs \<Longrightarrow> count_list xs x = (if x \<in> set xs then 1 else 0)"
  by (induction xs) auto

lemma count_list_concat_map:
  "(\<And>u. u \<in> set us \<Longrightarrow> distinct (f u))
   \<Longrightarrow> count_list (concat (map f us)) x = length (filter (\<lambda>u. x \<in> set (f u)) us)"
  by (induction us) (simp_all add: count_list_distinct)

lemma list_all_lookup: "list_all P al \<Longrightarrow> map_of al k = Some v \<Longrightarrow> P (k, v)"
  by (induction al) (auto split: if_splits)

lemma subscribers_distinct: "sets_ok subs \<Longrightarrow> distinct (subscribers subs m k)"
proof (cases subs)
  case None
  then show ?thesis by (simp add: subscribers_def)
next
  case (Some s)
  assume "sets_ok subs"
  with Some
  have all: "list_all (\<lambda>(m, byKey). list_all (\<lambda>(k, c). distinct c) byKey) s"
    by (simp add: sets_ok_def)
  show ?thesis
  proof (cases "map_of s m")
    case None
    with Some show ?thesis by (simp add: subscribers_def)
  next
    case byKey: (Some byKey)
    from list_all_lookup [OF all byKey]
    have row: "list_all (\<lambda>(k, c). distinct c) byKey" by simp
    show ?thesis
    proof (cases "map_of byKey k")
      case None
      with Some byKey show ?thesis by (simp add: subscribers_def)
    next
      case cbs: (Some cbs)
      from list_all_lookup [OF row cbs] have "distinct cbs" by simp
      with Some byKey cbs show ?thesis by (simp add: subscribers_def)
    qed
  qed
qed

text \<open>
  C6, as the code has it. The subscribable table returns what the engine returns. When
  the update returns, a callback is called once for every entry of the returned list
  for whose metric and period key it is subscribed; for a callback subscribed for one
  metric and one period only, that is once for every entry of the list with that metric
  and the key of that period: never when the list has no entry for its cell, and as
  many times as the list has entries for it. When the update raises, no callback is
  called.
\<close>

theorem callbacks_fire_per_entry:
  assumes "sets_ok (subscriptions st)"
  shows "fst (subscribable_update st values) = fst (update (table st) values)
       \<and> (fst (subscribable_update st values) = Inr updated \<longrightarrow>
            count_list (fst (snd (subscribable_update st values))) cb
            = length (filter (\<lambda>u. cb \<in> set (subscribers (subscriptions st) (metric u)
                                                  (periodKey (period u)))) updated)
            \<and> ((\<forall>m k. (cb \<in> set (subscribers (subscriptions st) m k))
                        = (m = metricA \<and> k = periodKey p1)) \<longrightarrow>
                 count_list (fst (snd (subscribable_update st values))) cb
                 = length (filter (\<lambda>u. metric u = metricA
                                         \<and> periodKey (period u) = periodKey p1) updated)))
       \<and> (fst (subscribable_update st values) = Inl e \<longrightarrow>
            fst (snd (subscribable_update st values)) = [])"
proof -
  obtain r t' where u: "update (table st) values = (r, t')"
    by (cases "update (table st) values")
  show ?thesis
  proof (cases r)
    case (Inl e')
    with u show ?thesis by (simp add: subscribable_update_def)
  next
    case (Inr us)
    have "count_list (concat (map (\<lambda>u. subscribers (subscriptions st) (metric u)
                                         (periodKey (period u))) us)) cb
          = length (filter (\<lambda>u. cb \<in> set (subscribers (subscriptions st) (metric u)
                                               (periodKey (period u)))) us)"
      by (rule count_list_concat_map) (rule subscribers_distinct [OF assms])
    with u Inr show ?thesis by (auto simp: subscribable_update_def)
  qed
qed

lemma test_update_jan_twice:
  "update test_table [write_jan, write_jan_20] =
     (Inr [changed ''beginningMRR'' (Month (Num 1) (Num 2023)) (Some 10) None,
           changed ''beginningMRR'' (Month (Num 1) (Num 2023)) (Some 20) (Some 10),
           changed ''endingMRR'' (Month (Num 1) (Num 2023)) (Some 20) None,
           changed ''beginningMRR'' (Quarter (Num 1) (Num 2023)) (Some 20) None,
           changed ''beginningMRR'' (Quarter (Num 2) (Num 2023)) (Some 0) None,
           changed ''beginningMRR'' (Quarter (Num 3) (Num 2023)) (Some 0) None,
           changed ''beginningMRR'' (Quarter (Num 4) (Num 2023)) (Some 0) None,
           changed ''beginningMRR'' (Year (Num 2023)) (Some 20) None],
      \<lparr>configuration = test_configuration,
       data =
         [(''beginningMRR'',
           [(''2023-01'', 20), (''2023-33'', 20), (''2023-34'', 0), (''2023-35'', 0),
            (''2023-36'', 0), (''2023'', 20)]),
          (''endingMRR'', [(''2023-01'', 20)]),
          (''anotherMetric'', [])]\<rparr>)"
  by (simp add: engine_defs test_table_def test_configuration_def
      write_jan_def write_jan_20_def jan_2023_def changed_def keys_2023 from_keys_2023
      upt_rec numeral_nat del: periodKey.simps)

lemma test_subscribed_sets_ok: "sets_ok (subscriptions test_subscribed)"
  by (simp add: sets_ok_def test_subscribed_def)

lemma test_subscribed_only:
  "(7 \<in> set (subscribers (subscriptions test_subscribed) m k))
   = (m = ''beginningMRR'' \<and> k = periodKey jan_2023)"
  by (auto simp: subscribers_def test_subscribed_def jan_2023_def keys_2023
      simp del: periodKey.simps split: option.splits if_splits)

theorem callbacks_fire_per_entry_witness:
  "sets_ok (subscriptions test_subscribed)
   \<and> fst (subscribable_update test_subscribed [write_jan, write_jan_20])
       = fst (update (table test_subscribed) [write_jan, write_jan_20])
   \<and> fst (subscribable_update test_subscribed [write_jan, write_jan_20]) =
       Inr [changed ''beginningMRR'' (Month (Num 1) (Num 2023)) (Some 10) None,
            changed ''beginningMRR'' (Month (Num 1) (Num 2023)) (Some 20) (Some 10),
            changed ''endingMRR'' (Month (Num 1) (Num 2023)) (Some 20) None,
            changed ''beginningMRR'' (Quarter (Num 1) (Num 2023)) (Some 20) None,
            changed ''beginningMRR'' (Quarter (Num 2) (Num 2023)) (Some 0) None,
            changed ''beginningMRR'' (Quarter (Num 3) (Num 2023)) (Some 0) None,
            changed ''beginningMRR'' (Quarter (Num 4) (Num 2023)) (Some 0) None,
            changed ''beginningMRR'' (Year (Num 2023)) (Some 20) None]
   \<and> (\<forall>m k. (7 \<in> set (subscribers (subscriptions test_subscribed) m k))
              = (m = ''beginningMRR'' \<and> k = periodKey jan_2023))
   \<and> count_list (fst (snd (subscribable_update test_subscribed [write_jan, write_jan_20]))) 7
       = 2
   \<and> fst (subscribable_update test_subscribed [write_unknown]) = Inl (UnknownMetric ''unknown'')
   \<and> fst (snd (subscribable_update test_subscribed [write_unknown])) = []"
proof -
  let ?L = "[changed ''beginningMRR'' (Month (Num 1) (Num 2023)) (Some 10) None,
            changed ''beginningMRR'' (Month (Num 1) (Num 2023)) (Some 20) (Some 10),
            changed ''endingMRR'' (Month (Num 1) (Num 2023)) (Some 20) None,
            changed ''beginningMRR'' (Quarter (Num 1) (Num 2023)) (Some 20) None,
            changed ''beginningMRR'' (Quarter (Num 2) (Num 2023)) (Some 0) None,
            changed ''beginningMRR'' (Quarter (Num 3) (Num 2023)) (Some 0) None,
            changed ''beginningMRR'' (Quarter (Num 4) (Num 2023)) (Some 0) None,
            changed ''beginningMRR'' (Year (Num 2023)) (Some 20) None]"
  have r: "fst (subscribable_update test_subscribed [write_jan, write_jan_20]) = Inr ?L"
    by (simp add: subscribable_update_def table_test_subscribed test_update_jan_twice)
  have only: "\<forall>m k. (7 \<in> set (subscribers (subscriptions test_subscribed) m k))
                     = (m = ''beginningMRR'' \<and> k = periodKey jan_2023)"
    by (simp add: test_subscribed_only)
  have n: "length (filter (\<lambda>u. metric u = ''beginningMRR''
                               \<and> periodKey (period u) = periodKey jan_2023) ?L) = 2"
    by (simp add: changed_def jan_2023_def keys_2023 del: periodKey.simps)
  have e: "fst (subscribable_update test_subscribed [write_unknown])
           = Inl (UnknownMetric ''unknown'')"
    by (simp add: subscribable_update_def table_test_subscribed update_def setValue_def
        test_table_def write_unknown_def)
  from callbacks_fire_per_entry [OF test_subscribed_sets_ok,
        of "[write_jan, write_jan_20]" ?L 7 "''beginningMRR''" jan_2023] r only n
  have c: "count_list (fst (snd (subscribable_update test_subscribed
                                    [write_jan, write_jan_20]))) 7 = 2"
    by simp
  from callbacks_fire_per_entry [OF test_subscribed_sets_ok,
        of "[write_unknown]" _ _ _ _ "UnknownMetric ''unknown''"] e
  have f: "fst (snd (subscribable_update test_subscribed [write_unknown])) = []"
    by simp
  from callbacks_fire_per_entry [OF test_subscribed_sets_ok, of "[write_jan, write_jan_20]"]
  have g: "fst (subscribable_update test_subscribed [write_jan, write_jan_20])
           = fst (update (table test_subscribed) [write_jan, write_jan_20])"
    by simp
  show ?thesis
    using test_subscribed_sets_ok g r only c e f by (intro conjI)
qed

text \<open>
  C6 as stated fails when one call writes a cell twice: the list has two entries for
  the cell, and the callback subscribed for it is called twice.
\<close>

theorem callbacks_fire_twice_counterexample:
  "getValue (data (table test_subscribed)) ''beginningMRR'' jan_2023 = Inr None
   \<and> getValue (data (table (snd (snd (subscribable_update test_subscribed
                                        [write_jan, write_jan_20])))))
        ''beginningMRR'' jan_2023 = Inr (Some 20)
   \<and> subscribers (subscriptions test_subscribed) ''beginningMRR'' (periodKey jan_2023) = [7]
   \<and> fst (snd (subscribable_update test_subscribed [write_jan, write_jan_20])) = [7, 7]"
  by (simp add: subscribable_update_def table_test_subscribed test_update_jan_twice
      subscribers_def changed_def getValue_def)
     (simp add: test_subscribed_def test_table_def jan_2023_def keys_2023 del: periodKey.simps)

section \<open>The built-in aggregates\<close>














section \<open>An update without values\<close>
























section \<open>The invariants are kept\<close>

text \<open>
  The hypotheses of the theorems above hold of every table the program can build:
  the constructor establishes them and the methods keep them.
\<close>

lemma list_all_update:
  "list_all P al \<Longrightarrow> P (k, v) \<Longrightarrow> list_all P (AList.update k v al)"
  by (induction al) auto

lemma list_all_new_Map_step:
  "list_all P acc \<Longrightarrow> list_all P es
   \<Longrightarrow> list_all P (foldl (\<lambda>m (k, v). AList.update k v m) acc es)"
proof (induction es arbitrary: acc)
  case Nil
  then show ?case by simp
next
  case (Cons e es)
  obtain k v where e: "e = (k, v)" by (cases e)
  from Cons.prems have "list_all P (AList.update k v acc)"
    by (simp add: e list_all_update)
  with Cons.prems show ?case by (simp add: e Cons.IH)
qed

lemma list_all_new_Map: "list_all P es \<Longrightarrow> list_all P (new_Map es)"
  by (simp add: new_Map_def list_all_new_Map_step)

lemma distinct_set_add: "distinct xs \<Longrightarrow> distinct (set_add x xs)"
  by (simp add: set_add_def)

lemma subscribe_keeps_sets:
  assumes "sets_ok (subscriptions st)"
  shows "sets_ok (subscriptions (snd (subscribe st m p cb)))"
proof -
  let ?P = "\<lambda>(m, byKey). list_all (\<lambda>(k, c). distinct (c :: callback list)) byKey"
  let ?subs = "case subscriptions st of
                 None \<Rightarrow> new_Map (map (\<lambda>mc. (name mc, [])) (metrics (configuration (table st))))
               | Some s \<Rightarrow> s"
  have all: "list_all ?P ?subs"
  proof (cases "subscriptions st")
    case None
    have "list_all ?P (map (\<lambda>mc. (name mc, [])) (metrics (configuration (table st))))"
      by (simp add: list_all_iff)
    then have "list_all ?P (new_Map (map (\<lambda>mc. (name mc, []))
                                      (metrics (configuration (table st)))))"
      by (rule list_all_new_Map)
    then show ?thesis using None by simp
  next
    case (Some s)
    with assms show ?thesis by (simp add: sets_ok_def)
  qed
  show ?thesis
  proof (cases "map_of ?subs m")
    case None
    then show ?thesis using all by (simp add: subscribe_def Let_def sets_ok_def)
  next
    case byKey: (Some byKey)
    from list_all_lookup [OF all byKey]
    have row: "list_all (\<lambda>(k, c). distinct c) byKey" by simp
    show ?thesis
    proof (cases "map_of byKey (periodKey p)")
      case None
      have "list_all (\<lambda>(k, c). distinct c) (AList.update (periodKey p) [cb] byKey)"
        using row by (rule list_all_update) simp
      then have "list_all ?P (AList.update m (AList.update (periodKey p) [cb] byKey) ?subs)"
        using all by (intro list_all_update) simp_all
      with byKey None show ?thesis by (simp add: subscribe_def Let_def sets_ok_def)
    next
      case (Some callbacks)
      from list_all_lookup [OF row Some] have "distinct callbacks" by simp
      then have "list_all (\<lambda>(k, c). distinct c)
                   (AList.update (periodKey p) (set_add cb callbacks) byKey)"
        using row by (intro list_all_update) (simp_all add: distinct_set_add)
      then have "list_all ?P
                   (AList.update m (AList.update (periodKey p) (set_add cb callbacks) byKey)
                      ?subs)"
        using all by (intro list_all_update) simp_all
      with byKey Some show ?thesis by (simp add: subscribe_def Let_def sets_ok_def)
    qed
  qed
qed

lemma call_unsubscribe_keeps_sets:
  assumes "sets_ok (subscriptions st)"
  shows "sets_ok (subscriptions (call_unsubscribe u st))"
proof (cases u)
  case (Unsubscribe ex cb)
  show ?thesis
  proof (cases ex)
    case None
    with Unsubscribe assms show ?thesis by simp
  next
    case (Some mk)
    obtain m k where mk: "mk = (m, k)" by (cases mk)
    let ?P = "\<lambda>(m, byKey). list_all (\<lambda>(k, c). distinct (c :: callback list)) byKey"
    show ?thesis
    proof (cases "subscriptions st")
      case None
      with Unsubscribe Some mk assms show ?thesis by simp
    next
      case subs: (Some s)
      with assms have all: "list_all ?P s" by (simp add: sets_ok_def)
      show ?thesis
      proof (cases "map_of s m")
        case None
        with Unsubscribe Some mk subs assms show ?thesis by simp
      next
        case byKey: (Some byKey)
        from list_all_lookup [OF all byKey]
        have row: "list_all (\<lambda>(k, c). distinct c) byKey" by simp
        show ?thesis
        proof (cases "map_of byKey k")
          case None
          with Unsubscribe Some mk subs byKey assms show ?thesis by simp
        next
          case cbs: (Some callbacks)
          from list_all_lookup [OF row cbs] have "distinct callbacks" by simp
          then have "list_all (\<lambda>(k, c). distinct c)
                       (AList.update k (removeAll cb callbacks) byKey)"
            using row by (intro list_all_update) (simp_all add: distinct_removeAll)
          then have "list_all ?P (AList.update m (AList.update k (removeAll cb callbacks) byKey) s)"
            using all by (intro list_all_update) simp_all
          with Unsubscribe Some mk subs byKey cbs show ?thesis by (simp add: sets_ok_def)
        qed
      qed
    qed
  qed
qed

lemma subscribable_update_keeps_sets:
  "subscriptions (snd (snd (subscribable_update st vs))) = subscriptions st"
  by (simp add: subscribable_update_def split: prod.splits sum.splits)

lemma subscribe_keeps_ok:
  assumes "subscribable_ok st"
  shows "subscribable_ok (snd (subscribe st m p cb))"
proof -
  let ?subs = "case subscriptions st of
                 None \<Rightarrow> new_Map (map (\<lambda>mc. (name mc, [])) (metrics (configuration (table st))))
               | Some s \<Rightarrow> s"
  have keys: "fst ` set ?subs = declared (table st)"
    using assms
    by (auto simp: subscribable_ok_def declared_def keys_new_Map image_image split: option.splits)
  have ok: "table_ok (table st)" using assms by (simp add: subscribable_ok_def)
  show ?thesis
  proof (cases "map_of ?subs m")
    case None
    with keys ok show ?thesis by (simp add: subscribe_def Let_def subscribable_ok_def)
  next
    case (Some byKey)
    then have "m \<in> fst ` set ?subs" by (rule map_of_in_keys)
    then have "fst ` set (AList.update m v ?subs) = declared (table st)" for v
      using keys by (auto simp: keys_update)
    with Some ok show ?thesis
      by (simp add: subscribe_def Let_def subscribable_ok_def split: option.splits)
  qed
qed

lemma subscribable_update_keeps_ok:
  assumes "subscribable_ok st"
  shows "subscribable_ok (snd (snd (subscribable_update st vs)))"
proof -
  obtain r t' where u: "update (table st) vs = (r, t')" by (cases "update (table st) vs")
  have frame: "unchanged_frame (table st) t'"
    using update_out_ok [of "table st" vs] u by (simp add: out_ok_def)
  then have "table_ok t'" and "declared t' = declared (table st)"
    using assms by (simp_all add: subscribable_ok_def table_ok_frame declared_frame)
  with assms u show ?thesis
    by (cases r) (auto simp: subscribable_update_def subscribable_ok_def split: option.splits)
qed

end
